theory Spec2Isabelle
  imports Main "HOL-Library.Word" "HOL-Library.Char_ord" "HOL-Library.List_Lexorder"
    "HOL-Library.Multiset"
begin

unbundle bit_operations_syntax

section \<open>Python values held by the store\<close>

text \<open>
  The occurrence descriptors of \<open>xrelfo.py\<close> are the values \<open>json.load\<close> returns and
  \<open>json.dump\<close> accepts: \<open>None\<close>, booleans, integers, strings, lists and dicts with
  string keys. A dict is an association list in insertion order; Python keeps its keys
  distinct (\<open>wf_json\<close> below). Floating-point numbers are outside the model: the
  extractor never builds one.
\<close>

datatype json =
    JNull
  | JBool bool
  | JInt int
  | JStr string
  | JArr "json list"
  | JObj "(string \<times> json) list"

datatype error = KeyError | TypeError | AttributeError | ValueError | StructError

text \<open>
  Python's \<open>==\<close> on these values. \<open>bool\<close> is a subclass of \<open>int\<close>, so \<open>True == 1\<close>;
  two lists are equal when they agree element by element; two dicts are equal when they
  have the same number of keys and every key of the left one is a key of the right one with
  an equal value, whatever the insertion order.
\<close>

fun py_eq :: "json \<Rightarrow> json \<Rightarrow> bool"
  and py_eq_list :: "json list \<Rightarrow> json list \<Rightarrow> bool"
  and py_eq_items :: "(string \<times> json) list \<Rightarrow> (string \<times> json) list \<Rightarrow> bool"
where
  "py_eq JNull JNull = True"
| "py_eq (JBool a) (JBool b) = (a = b)"
| "py_eq (JBool a) (JInt j) = ((if a then 1 else 0) = j)"
| "py_eq (JInt i) (JBool b) = (i = (if b then 1 else 0))"
| "py_eq (JInt i) (JInt j) = (i = j)"
| "py_eq (JStr s) (JStr t) = (s = t)"
| "py_eq (JArr xs) (JArr ys) = py_eq_list xs ys"
| "py_eq (JObj xs) (JObj ys) = (length xs = length ys \<and> py_eq_items xs ys)"
| "py_eq _ _ = False"
| "py_eq_list [] [] = True"
| "py_eq_list (x # xs) (y # ys) = (py_eq x y \<and> py_eq_list xs ys)"
| "py_eq_list _ _ = False"
| "py_eq_items [] ys = True"
| "py_eq_items ((k, v) # xs) ys =
     ((case map_of ys k of None \<Rightarrow> False | Some w \<Rightarrow> py_eq v w) \<and> py_eq_items xs ys)"

text \<open>\<open>item in myitems\<close>: some element of the list equals the item.\<close>

fun py_in :: "json \<Rightarrow> json list \<Rightarrow> bool" where
  "py_in x [] = False"
| "py_in x (m # ms) = (py_eq m x \<or> py_in x ms)"

text \<open>The invariant of Python dicts: keys are distinct, at every depth.\<close>

fun wf_json :: "json \<Rightarrow> bool"
  and wf_json_list :: "json list \<Rightarrow> bool"
  and wf_json_items :: "(string \<times> json) list \<Rightarrow> bool"
where
  "wf_json (JArr xs) = wf_json_list xs"
| "wf_json (JObj kvs) = (distinct (map fst kvs) \<and> wf_json_items kvs)"
| "wf_json _ = True"
| "wf_json_list [] = True"
| "wf_json_list (x # xs) = (wf_json x \<and> wf_json_list xs)"
| "wf_json_items [] = True"
| "wf_json_items ((k, v) # kvs) = (wf_json v \<and> wf_json_items kvs)"

subsection \<open>Dict operations\<close>

text \<open>
  \<open>d.get(k)\<close>, \<open>d[k] = v\<close> (an existing key keeps its position, a new key goes last),
  \<open>del d[k]\<close> and \<open>k in d\<close> on an association list.
\<close>

fun dict_get :: "('k \<times> 'v) list \<Rightarrow> 'k \<Rightarrow> 'v option" where
  "dict_get [] k = None"
| "dict_get ((k', v) # d) k = (if k' = k then Some v else dict_get d k)"

fun dict_set :: "('k \<times> 'v) list \<Rightarrow> 'k \<Rightarrow> 'v \<Rightarrow> ('k \<times> 'v) list" where
  "dict_set [] k v = [(k, v)]"
| "dict_set ((k', v') # d) k v = (if k' = k then (k, v) # d else (k', v') # dict_set d k v)"

fun dict_del :: "('k \<times> 'v) list \<Rightarrow> 'k \<Rightarrow> ('k \<times> 'v) list" where
  "dict_del [] k = []"
| "dict_del ((k', v') # d) k = (if k' = k then d else (k', v') # dict_del d k)"

definition dict_keys :: "('k \<times> 'v) list \<Rightarrow> 'k set" where
  "dict_keys d = fst ` set d"

text \<open>\<open>d.setdefault(k, [])\<close> read as a value: the list under \<open>k\<close>, empty when \<open>k\<close> is new.\<close>

definition get_list :: "('k \<times> 'v list) list \<Rightarrow> 'k \<Rightarrow> 'v list" where
  "get_list d k = (case dict_get d k of None \<Rightarrow> [] | Some xs \<Rightarrow> xs)"

section \<open>Records decoded from the binary\<close>

text \<open>
  The generic record (\<open>Xref\<close>) with its origin, and the detail record (\<open>Xrefdata\<close>) with
  the hash input. \<open>ref_from\<close> stores the owning record in the detail record; the model
  keeps the owner's origin there. \<open>addr\<close> is the place of the record in the binary and
  \<open>stored_uid\<close> the \<open>uid\<close> field as loaded (renamed \<open>_uid\<close> by the source).
\<close>

record origin =
  o_file :: string
  o_line :: int
  o_func :: string

record xrefdata =
  xref :: origin
  hashstr :: "string option"
  hashu32_0 :: "32 word"
  hashu32_1 :: "32 word"
  stored_uid :: string
  addr :: nat

text \<open>
  \<open>Xrefdata.uid\<close>. The function \<open>uidhash\<close> of \<open>clippy.uidhash\<close> is taken as a
  parameter.
\<close>

definition uid ::
  "(string \<Rightarrow> string \<Rightarrow> 32 word \<Rightarrow> 32 word \<Rightarrow> string) \<Rightarrow> xrefdata \<Rightarrow> string option" where
  "uid uidhash d =
     (case hashstr d of
        None \<Rightarrow> None
      | Some h \<Rightarrow> Some (uidhash (o_file (xref d)) h (hashu32_0 d) (hashu32_1 d)))"

text \<open>
  \<open>XrefLogmsg\<close>: the record \<open>self.xref\<close> with its (nullable) detail record, and the
  fields of the log-message variant.
\<close>

record xref_logmsg =
  lm_xref :: origin
  lm_xrefdata :: "xrefdata option"
  priority :: int
  ec :: int
  fmtstring :: string

text \<open>\<open>dict([(i, getattr(self.xref, i)) for i in ['file', 'line', 'func']])\<close>\<close>

definition origin_dict :: "origin \<Rightarrow> (string \<times> json) list" where
  "origin_dict x = [(''file'', JStr (o_file x)), (''line'', JInt (o_line x)),
                   (''func'', JStr (o_func x))]"

text \<open>\<open>jsobj.setdefault('flags', []).append(s)\<close>\<close>

definition append_flag :: "(string \<times> json) list \<Rightarrow> string \<Rightarrow> (string \<times> json) list" where
  "append_flag jsobj s =
     (case dict_get jsobj ''flags'' of
        Some (JArr fl) \<Rightarrow> dict_set jsobj ''flags'' (JArr (fl @ [JStr s]))
      | _ \<Rightarrow> dict_set jsobj ''flags'' (JArr [JStr s]))"

text \<open>The descriptor \<open>XrefLogmsg.to_dict\<close> builds before it touches the store.\<close>

definition logmsg_jsobj :: "xref_logmsg \<Rightarrow> (string \<times> json) list" where
  "logmsg_jsobj m =
     (let j0 = origin_dict (lm_xref m);
          j1 = (if ec m \<noteq> 0 then dict_set j0 ''ec'' (JInt (ec m)) else j0);
          j2 = dict_set j1 ''fmtstring'' (JStr (fmtstring m));
          j3 = dict_set j2 ''priority'' (JInt (priority m AND 7));
          j4 = dict_set j3 ''type'' (JStr ''logmsg'');
          j5 = (if priority m AND 0x10 \<noteq> 0 then append_flag j4 ''errno'' else j4);
          j6 = (if priority m AND 0x20 \<noteq> 0 then append_flag j5 ''getaddrinfo'' else j5)
      in j6)"

section \<open>The aggregate store\<close>

text \<open>
  \<open>Xrelfo\<close> is a dict created with the key \<open>refs\<close>; the key \<open>cli\<close> appears with the first
  command contribution (\<open>cli = None\<close> until then). Under \<open>refs\<close> an identity (\<open>None\<close> when
  the detail record has no hash input) maps to the list of its occurrences. A command
  descriptor is a dict with the keys \<open>string\<close>, \<open>doc\<close>, \<open>attr\<close>, \<open>nodes\<close> and \<open>defun\<close>, each
  present or not. The list under \<open>nodes\<close> is shared with the \<open>dict_nodes\<close> attribute of a
  \<open>CmdElement\<close>, so the descriptor holds the address of the list, \<open>heap\<close> holds the
  lists and \<open>next_addr\<close> is the first address not yet given to a list.
\<close>

record cmd_desc =
  d_string :: "string option"
  d_doc :: "string option"
  d_attr :: "json option"
  d_nodes :: "nat option"
  d_defun :: "json option"

record xrelfo =
  refs :: "(string option \<times> json list) list"
  cli :: "(string \<times> cmd_desc) list option"
  heap :: "nat \<Rightarrow> json list"
  next_addr :: nat

definition Xrelfo :: xrelfo where
  "Xrelfo = \<lparr>refs = [], cli = None, heap = (\<lambda>a. []), next_addr = 0\<rparr>"

text \<open>
  \<open>XrefLogmsg.to_dict\<close>:
  \<open>xrelfo['refs'].setdefault(self.xref.xrefdata.uid, []).append(jsobj)\<close>. A null detail
  pointer makes \<open>self.xref.xrefdata\<close> the value \<open>None\<close>, and reading \<open>uid\<close> from it raises.
\<close>

definition logmsg_to_dict ::
  "(string \<Rightarrow> string \<Rightarrow> 32 word \<Rightarrow> 32 word \<Rightarrow> string) \<Rightarrow> xref_logmsg \<Rightarrow> xrelfo \<Rightarrow> error + xrelfo" where
  "logmsg_to_dict uidhash m s =
     (case lm_xrefdata m of
        None \<Rightarrow> Inl AttributeError
      | Some d \<Rightarrow>
          (let u = uid uidhash d
           in Inr (s\<lparr>refs := dict_set (refs s) u (get_list (refs s) u @ [JObj (logmsg_jsobj m)])\<rparr>)))"

section \<open>Merging a snapshot\<close>

text \<open>
  The inner loop of \<open>load_json\<close>:
  \<open>for item in items: if item in myitems: continue; myitems.append(item)\<close>.
\<close>

fun merge_items :: "json list \<Rightarrow> json list \<Rightarrow> json list" where
  "merge_items myitems [] = myitems"
| "merge_items myitems (item # items) =
     merge_items (if py_in item myitems then myitems else myitems @ [item]) items"

text \<open>
  What \<open>for item in items\<close> iterates over: the elements of a list, the characters of a
  string, the keys of a dict; anything else is not iterable.
\<close>

fun py_iter :: "json \<Rightarrow> json list option" where
  "py_iter (JArr xs) = Some xs"
| "py_iter (JStr s) = Some (map (\<lambda>c. JStr [c]) s)"
| "py_iter (JObj kvs) = Some (map (\<lambda>kv. JStr (fst kv)) kvs)"
| "py_iter _ = None"

text \<open>
  The outer loop over \<open>data['refs'].items()\<close>. \<open>setdefault\<close> runs before the inner loop, so
  an identity whose value is not iterable is still entered, with the list it had or an
  empty one, before the \<open>TypeError\<close> ends the merge.
\<close>

fun merge_refs ::
  "(string option \<times> json list) list \<Rightarrow> (string \<times> json) list
     \<Rightarrow> (string option \<times> json list) list \<times> error option" where
  "merge_refs r [] = (r, None)"
| "merge_refs r ((u, items) # rest) =
     (case py_iter items of
        None \<Rightarrow> (dict_set r (Some u) (get_list r (Some u)), Some TypeError)
      | Some xs \<Rightarrow> merge_refs (dict_set r (Some u) (merge_items (get_list r (Some u)) xs)) rest)"

text \<open>
  The loop seen from outside: the identities it reaches with the lists it iterates over
  (\<open>entries_seen\<close>; the identity that stops the loop is reached with nothing to
  iterate), and the merge of such lists into the store (\<open>merge_lists\<close>). They are used to
  state and prove properties of \<open>merge_refs\<close>; \<open>merge_refs_lists\<close> relates them.
\<close>

fun entries_seen :: "(string \<times> json) list \<Rightarrow> (string option \<times> json list) list" where
  "entries_seen [] = []"
| "entries_seen ((u, items) # rest) =
     (case py_iter items of
        None \<Rightarrow> [(Some u, [])]
      | Some xs \<Rightarrow> (Some u, xs) # entries_seen rest)"

fun merge_lists ::
  "(string option \<times> json list) list \<Rightarrow> (string option \<times> json list) list
     \<Rightarrow> (string option \<times> json list) list" where
  "merge_lists r [] = r"
| "merge_lists r ((k, xs) # es) =
     merge_lists (dict_set r k (merge_items (get_list r k) xs)) es"

text \<open>
  \<open>load_json\<close> on the parsed document \<open>data\<close>. \<open>data['refs']\<close> raises \<open>KeyError\<close> on a dict
  without that key and \<open>TypeError\<close> on any value that is not a dict; \<open>.items()\<close> raises
  \<open>AttributeError\<close> unless \<open>data['refs']\<close> is a dict. The store is returned as the loop
  left it, with the exception if there was one.
\<close>

definition load_json :: "xrelfo \<Rightarrow> json \<Rightarrow> xrelfo \<times> error option" where
  "load_json s data =
     (case data of
        JObj members \<Rightarrow>
          (case dict_get members ''refs'' of
             None \<Rightarrow> (s, Some KeyError)
           | Some (JObj entries) \<Rightarrow>
               (let (r, e) = merge_refs (refs s) entries in (s\<lparr>refs := r\<rparr>, e))
           | Some _ \<Rightarrow> (s, Some AttributeError))
      | _ \<Rightarrow> (s, Some TypeError))"

section \<open>Command contributions\<close>

text \<open>
  \<open>CmdElement\<close>. \<open>__init__\<close> gives every instance a list of its own,
  \<open>self.dict_nodes = []\<close>: a fresh address of the heap.
\<close>

record cmd_element =
  ce_xref :: origin
  name :: string
  string :: string
  doc :: string
  attr :: int
  dict_nodes :: nat

definition new_list :: "xrelfo \<Rightarrow> nat \<times> xrelfo" where
  "new_list s =
     (next_addr s, s\<lparr>heap := (heap s)(next_addr s := []), next_addr := Suc (next_addr s)\<rparr>)"

definition CmdElement ::
  "origin \<Rightarrow> string \<Rightarrow> string \<Rightarrow> string \<Rightarrow> int \<Rightarrow> xrelfo \<Rightarrow> cmd_element \<times> xrelfo" where
  "CmdElement x n str dc at s =
     (let (a, s') = new_list s
      in (\<lparr>ce_xref = x, name = n, string = str, doc = dc, attr = at, dict_nodes = a\<rparr>, s'))"

text \<open>\<open>self.cmd_attrs.get(self.attr, self.attr)\<close> with
  \<open>cmd_attrs = {0: None, 1: 'deprecated', 2: 'hidden'}\<close>\<close>

definition cmd_attrs_get :: "int \<Rightarrow> json" where
  "cmd_attrs_get a =
     (if a = 0 then JNull else if a = 1 then JStr ''deprecated''
      else if a = 2 then JStr ''hidden'' else JInt a)"

definition empty_desc :: cmd_desc where
  "empty_desc = \<lparr>d_string = None, d_doc = None, d_attr = None, d_nodes = None, d_defun = None\<rparr>"

text \<open>\<open>xrelfo.setdefault('cli', {})\<close> and \<open>cli.setdefault(name, {})\<close>, read as values.\<close>

definition get_cli :: "xrelfo \<Rightarrow> (string \<times> cmd_desc) list" where
  "get_cli s = (case cli s of None \<Rightarrow> [] | Some c \<Rightarrow> c)"

definition get_desc :: "(string \<times> cmd_desc) list \<Rightarrow> string \<Rightarrow> cmd_desc" where
  "get_desc c n = (case dict_get c n of None \<Rightarrow> empty_desc | Some d \<Rightarrow> d)"

text \<open>
  \<open>CmdElement.to_dict\<close>: \<open>update\<close> writes the four keys, \<open>nodes\<close> among them with the
  instance's own list; \<open>attr\<close> is deleted again when it is \<open>None\<close>; \<open>defun\<close> is written
  last.
\<close>

definition cmd_to_dict :: "cmd_element \<Rightarrow> xrelfo \<Rightarrow> xrelfo" where
  "cmd_to_dict c s =
     (let cli0 = get_cli s;
          jsobj = get_desc cli0 (name c);
          jsobj1 = jsobj\<lparr>d_string := Some (string c), d_doc := Some (doc c),
                         d_attr := Some (cmd_attrs_get (attr c)),
                         d_nodes := Some (dict_nodes c)\<rparr>;
          jsobj2 = (if d_attr jsobj1 = Some JNull then jsobj1\<lparr>d_attr := None\<rparr> else jsobj1);
          jsobj3 = jsobj2\<lparr>d_defun := Some (JObj (origin_dict (ce_xref c)))\<rparr>
      in s\<lparr>cli := Some (dict_set cli0 (name c) jsobj3)\<rparr>)"

text \<open>
  \<open>XrefInstallElement\<close>, with the name of the command element it points to
  (\<open>self.cmd_element.name\<close>).
\<close>

record xref_install_element =
  ie_xref :: origin
  cmd_element_name :: string
  node_type :: int

text \<open>
  \<open>XrefInstallElement.to_dict\<close>: \<open>jsobj.setdefault('nodes', [])\<close> makes a new list only
  when the descriptor has none, and the entry is appended to the list the descriptor
  holds.
\<close>

definition install_to_dict :: "xref_install_element \<Rightarrow> xrelfo \<Rightarrow> xrelfo" where
  "install_to_dict i s =
     (let cli0 = get_cli s;
          jsobj = get_desc cli0 (cmd_element_name i);
          (nodes, s1) = (case d_nodes jsobj of None \<Rightarrow> new_list s | Some a \<Rightarrow> (a, s));
          entry = JObj [(''node'', JInt (node_type i)),
                        (''install'', JObj (origin_dict (ie_xref i)))]
      in s1\<lparr>cli := Some (dict_set cli0 (cmd_element_name i) (jsobj\<lparr>d_nodes := Some nodes\<rparr>)),
            heap := (heap s1)(nodes := heap s1 nodes @ [entry])\<rparr>)"

text \<open>A descriptor as the dict it stands for, the list under \<open>nodes\<close> read from the heap.\<close>

definition opt_item :: "string \<Rightarrow> json option \<Rightarrow> (string \<times> json) list" where
  "opt_item k v = (case v of None \<Rightarrow> [] | Some j \<Rightarrow> [(k, j)])"

definition desc_json :: "(nat \<Rightarrow> json list) \<Rightarrow> cmd_desc \<Rightarrow> json" where
  "desc_json h d =
     JObj (opt_item ''string'' (map_option JStr (d_string d))
         @ opt_item ''doc'' (map_option JStr (d_doc d))
         @ opt_item ''attr'' (d_attr d)
         @ opt_item ''nodes'' (map_option (\<lambda>a. JArr (h a)) (d_nodes d))
         @ opt_item ''defun'' (d_defun d))"

section \<open>The by-file view\<close>

text \<open>
  The dict \<open>outbyfile\<close> of \<open>main\<close>, as the two loops after \<open>out = xrelfo\<close> build it. Its
  keys are the values found under \<open>file\<close>, compared as Python compares dict keys; lists
  and dicts are not hashable.
\<close>

fun hashable :: "json \<Rightarrow> bool" where
  "hashable (JArr xs) = False"
| "hashable (JObj kvs) = False"
| "hashable _ = True"

fun view_get :: "(json \<times> 'v) list \<Rightarrow> json \<Rightarrow> 'v option" where
  "view_get [] k = None"
| "view_get ((k', v) # d) k = (if py_eq k' k then Some v else view_get d k)"

text \<open>\<open>outbyfile.setdefault(k, []).append(x)\<close>\<close>

fun view_append :: "(json \<times> json list) list \<Rightarrow> json \<Rightarrow> json \<Rightarrow> (json \<times> json list) list" where
  "view_append [] k x = [(k, [x])]"
| "view_append ((k', xs) # d) k x =
     (if py_eq k' k then (k', xs @ [x]) # d else (k', xs) # view_append d k x)"

text \<open>
  One turn of the inner loop: \<open>loc['file']\<close> needs a dict (anything else cannot be
  indexed by a string) that has the key; the copy without \<open>file\<close> is appended.
\<close>

definition add_loc :: "(json \<times> json list) list \<Rightarrow> json \<Rightarrow> error + (json \<times> json list) list" where
  "add_loc out loc =
     (case loc of
        JObj d \<Rightarrow>
          (case dict_get d ''file'' of
             None \<Rightarrow> Inl KeyError
           | Some f \<Rightarrow>
               if hashable f then Inr (view_append out f (JObj (dict_del d ''file'')))
               else Inl TypeError)
      | _ \<Rightarrow> Inl TypeError)"

fun add_locs :: "(json \<times> json list) list \<Rightarrow> json list \<Rightarrow> error + (json \<times> json list) list" where
  "add_locs out [] = Inr out"
| "add_locs out (loc # locs) =
     (case add_loc out loc of Inl e \<Rightarrow> Inl e | Inr out' \<Rightarrow> add_locs out' locs)"

fun add_refs ::
  "(json \<times> json list) list \<Rightarrow> (string option \<times> json list) list
     \<Rightarrow> error + (json \<times> json list) list" where
  "add_refs out [] = Inr out"
| "add_refs out ((u, locs) # r) =
     (case add_locs out locs of Inl e \<Rightarrow> Inl e | Inr out' \<Rightarrow> add_refs out' r)"

text \<open>
  The sort key \<open>x['line']\<close>, read as an integer (booleans are integers) or as a string.
\<close>

fun int_of :: "json \<Rightarrow> int option" where
  "int_of (JInt i) = Some i"
| "int_of (JBool b) = Some (if b then 1 else 0)"
| "int_of _ = None"

definition line_of :: "json \<Rightarrow> json option" where
  "line_of x = (case x of JObj d \<Rightarrow> dict_get d ''line'' | _ \<Rightarrow> None)"

definition line_int :: "json \<Rightarrow> int" where
  "line_int x = (case line_of x of Some j \<Rightarrow> (case int_of j of Some i \<Rightarrow> i | None \<Rightarrow> 0) | None \<Rightarrow> 0)"

definition line_str :: "json \<Rightarrow> string" where
  "line_str x = (case line_of x of Some (JStr t) \<Rightarrow> t | _ \<Rightarrow> [])"

fun is_str :: "json \<Rightarrow> bool" where
  "is_str (JStr t) = True"
| "is_str _ = False"

text \<open>
  \<open>sorted(xs, key=lambda x: x['line'])\<close>. All keys are computed first (\<open>KeyError\<close> when
  one is missing); a list of fewer than two elements is returned without a comparison.
  Python's sort is stable, so on keys of a linear order it returns what the stable
  insertion sort \<open>sort_key\<close> returns: integers (and booleans) are ordered by value,
  strings lexicographically by character. Keys of two different kinds, and keys that are
  \<open>None\<close> or dicts, cannot be compared: \<open>TypeError\<close>. Keys that are all lists are
  compared element by element by Python, which may or may not raise, depending on the
  comparisons the sort makes; the model reports \<open>TypeError\<close> for them.
\<close>

definition sorted_by_line :: "json list \<Rightarrow> error + json list" where
  "sorted_by_line xs =
     (if \<exists>x \<in> set xs. line_of x = None then Inl KeyError
      else if length xs < 2 then Inr xs
      else if \<forall>x \<in> set xs. Option.bind (line_of x) int_of \<noteq> None
        then Inr (sort_key line_int xs)
      else if \<forall>x \<in> set xs. (case line_of x of Some j \<Rightarrow> is_str j | None \<Rightarrow> False)
        then Inr (sort_key line_str xs)
      else Inl TypeError)"

text \<open>\<open>for k in outbyfile.keys(): outbyfile[k] = sorted(...)\<close>\<close>

fun sort_view :: "(json \<times> json list) list \<Rightarrow> error + (json \<times> json list) list" where
  "sort_view [] = Inr []"
| "sort_view ((k, xs) # d) =
     (case sorted_by_line xs of
        Inl e \<Rightarrow> Inl e
      | Inr ys \<Rightarrow> (case sort_view d of Inl e \<Rightarrow> Inl e | Inr d' \<Rightarrow> Inr ((k, ys) # d')))"

definition outbyfile :: "(string option \<times> json list) list \<Rightarrow> error + (json \<times> json list) list" where
  "outbyfile r = (case add_refs [] r of Inl e \<Rightarrow> Inl e | Inr out \<Rightarrow> sort_view out)"

section \<open>The primary output, written and read back\<close>

text \<open>
  \<open>json.dump(out, fd, indent=2, sort_keys=True)\<close> followed by \<open>json.load\<close>: the text
  in between is not modelled, only the value that is read back. Every dict comes back
  with its keys in sorted order. Keys are sorted before they are turned into strings, so
  the identity \<open>None\<close> next to any other identity raises \<open>TypeError\<close>; alone, it comes back
  as the string \<open>null\<close>.
\<close>

fun sort_keys :: "json \<Rightarrow> json"
  and sort_keys_list :: "json list \<Rightarrow> json list"
  and sort_keys_items :: "(string \<times> json) list \<Rightarrow> (string \<times> json) list"
where
  "sort_keys (JArr xs) = JArr (sort_keys_list xs)"
| "sort_keys (JObj kvs) = JObj (sort_key fst (sort_keys_items kvs))"
| "sort_keys j = j"
| "sort_keys_list [] = []"
| "sort_keys_list (x # xs) = sort_keys x # sort_keys_list xs"
| "sort_keys_items [] = []"
| "sort_keys_items ((k, v) # kvs) = (k, sort_keys v) # sort_keys_items kvs"

fun str_keys :: "(string option \<times> json list) list \<Rightarrow> (string \<times> json) list option" where
  "str_keys [] = Some []"
| "str_keys ((None, xs) # r) = None"
| "str_keys ((Some u, xs) # r) = map_option (\<lambda>d. (u, JArr xs) # d) (str_keys r)"

definition refs_doc :: "(string option \<times> json list) list \<Rightarrow> error + (string \<times> json) list" where
  "refs_doc r =
     (case str_keys r of
        Some d \<Rightarrow> Inr d
      | None \<Rightarrow> (case r of [(None, xs)] \<Rightarrow> Inr [(''null'', JArr xs)] | _ \<Rightarrow> Inl TypeError))"

definition cli_doc :: "xrelfo \<Rightarrow> (string \<times> json) list" where
  "cli_doc s =
     (case cli s of
        None \<Rightarrow> []
      | Some c \<Rightarrow> [(''cli'', JObj (map (\<lambda>nd. (fst nd, desc_json (heap s) (snd nd))) c))])"

definition dump :: "xrelfo \<Rightarrow> error + json" where
  "dump s =
     (case refs_doc (refs s) of
        Inl e \<Rightarrow> Inl e
      | Inr d \<Rightarrow> Inr (sort_keys (JObj ((''refs'', JObj d) # cli_doc s))))"

text \<open>
  Python's \<open>==\<close> between two stores, on the \<open>refs\<close> mapping: the same number of
  identities, and every identity of the left one is in the right one with an equal list.
\<close>

fun refs_eq_items ::
  "(string option \<times> json list) list \<Rightarrow> (string option \<times> json list) list \<Rightarrow> bool" where
  "refs_eq_items [] r' = True"
| "refs_eq_items ((u, xs) # r) r' =
     ((case dict_get r' u of None \<Rightarrow> False | Some ys \<Rightarrow> py_eq_list xs ys) \<and> refs_eq_items r r')"

definition refs_eq ::
  "(string option \<times> json list) list \<Rightarrow> (string option \<times> json list) list \<Rightarrow> bool" where
  "refs_eq r r' = (length r = length r' \<and> refs_eq_items r r')"

section \<open>Finding the pointer table\<close>

text \<open>
  What \<open>load_elf\<close> asks of the ELF accessor (\<open>clippy.elf\<close>): \<open>bigendian\<close> and \<open>elfclass\<close>,
  \<open>find_note(owner, type)\<close> with the start offset of the note it finds, \<open>elffile[note]\<close>
  with the bytes of the note, and \<open>get_section(name)\<close>.
\<close>

record elfnote =
  start :: int

record 'sec elffile =
  bigendian :: bool
  elfclass :: int
  find_note :: "string \<Rightarrow> string \<Rightarrow> elfnote option"
  getitem :: "elfnote \<Rightarrow> 8 word list"
  get_section :: "string \<Rightarrow> 'sec option"

text \<open>
  \<open>struct.unpack\<close> with the formats \<open>QQ\<close> and \<open>II\<close> behind an explicit byte order:
  two unsigned integers of 8 or 4 bytes, no padding, and \<open>struct.error\<close> unless the
  buffer has exactly that size.
\<close>

fun le_uint :: "8 word list \<Rightarrow> int" where
  "le_uint [] = 0"
| "le_uint (b # bs) = uint b + 256 * le_uint bs"

definition unpack_uint :: "bool \<Rightarrow> 8 word list \<Rightarrow> int" where
  "unpack_uint big bs = (if big then le_uint (rev bs) else le_uint bs)"

definition unpack2 :: "bool \<Rightarrow> nat \<Rightarrow> 8 word list \<Rightarrow> error + int \<times> int" where
  "unpack2 big w mem =
     (if length mem \<noteq> 2 * w then Inl StructError
      else Inr (unpack_uint big (take w mem), unpack_uint big (drop w mem)))"

text \<open>
  Where \<open>load_elf\<close> takes the pointers from: \<open>edf.iter_data(XrefPtr, slice(start, end))\<close>
  or \<open>xrefarray.iter_data(XrefPtr)\<close>.
\<close>

datatype 'sec ptrs = Slice int int | Section 'sec

definition locate_ptrs :: "'sec elffile \<Rightarrow> error + 'sec ptrs" where
  "locate_ptrs e =
     (case find_note e ''FRRouting'' ''XREF'' of
        Some n \<Rightarrow>
          (let mem = getitem e n
           in if elfclass e = 64
              then (case unpack2 (bigendian e) 8 mem of
                      Inl err \<Rightarrow> Inl err
                    | Inr (s, t) \<Rightarrow> Inr (Slice (s + start n) (t + (start n + 8))))
              else (case unpack2 (bigendian e) 4 mem of
                      Inl err \<Rightarrow> Inl err
                    | Inr (s, t) \<Rightarrow> Inr (Slice (s + start n) (t + (start n + 4)))))
      | None \<Rightarrow>
          (case get_section e ''xref_array'' of
             None \<Rightarrow> Inl ValueError
           | Some xrefarray \<Rightarrow> Inr (Section xrefarray)))"

text \<open>The lists a snapshot merges into the store, whatever its shape.\<close>

definition snapshot_entries :: "json \<Rightarrow> (string option \<times> json list) list" where
  "snapshot_entries data =
     (case data of
        JObj members \<Rightarrow>
          (case dict_get members ''refs'' of
             Some (JObj entries) \<Rightarrow> entries_seen entries
           | _ \<Rightarrow> [])
      | _ \<Rightarrow> [])"




text \<open>
  Words of the specification about the by-file view: the occurrences of the store in the
  order the loops of \<open>main\<close> reach them; a field of an occurrence, the file among them;
  the occurrence without its \<open>file\<close> field, that is with every other field kept, in
  order; and an occurrence as the data model has it, a dict with a string under \<open>file\<close>
  and an integer under \<open>line\<close>.
\<close>

definition occurrences :: "(string option \<times> json list) list \<Rightarrow> json list" where
  "occurrences r = concat (map snd r)"

definition file_of :: "json \<Rightarrow> json option" where
  "file_of loc = (case loc of JObj d \<Rightarrow> dict_get d ''file'' | _ \<Rightarrow> None)"

definition field_of :: "string \<Rightarrow> json \<Rightarrow> json option" where
  "field_of key loc = (case loc of JObj d \<Rightarrow> dict_get d key | _ \<Rightarrow> None)"

definition strip_file :: "json \<Rightarrow> json" where
  "strip_file loc =
     (case loc of JObj d \<Rightarrow> JObj (filter (\<lambda>kv. fst kv \<noteq> ''file'') d) | _ \<Rightarrow> loc)"

definition occ_ok :: "json \<Rightarrow> bool" where
  "occ_ok loc =
     (case file_of loc of
        Some (JStr f) \<Rightarrow> (case line_of loc of Some (JInt i) \<Rightarrow> True | _ \<Rightarrow> False)
      | _ \<Rightarrow> False)"

text \<open>
  For the proofs about the view: an entry with an integer line, what the view holds for
  a file once the occurrences \<open>locs\<close> went in, and the invariant of the view while it
  is built.
\<close>

definition line_ok :: "json \<Rightarrow> bool" where
  "line_ok x \<longleftrightarrow> (\<exists>i. line_of x = Some (JInt i))"

definition bucket :: "string \<Rightarrow> json list \<Rightarrow> json list" where
  "bucket f locs = map strip_file (filter (\<lambda>loc. file_of loc = Some (JStr f)) locs)"

definition view_inv :: "(json \<times> json list) list \<Rightarrow> bool" where
  "view_inv out \<longleftrightarrow> distinct (map fst out)
      \<and> (\<forall>(k, xs) \<in> set out. (\<exists>f. k = JStr f) \<and> (\<forall>x \<in> set xs. line_ok x))"

text \<open>
  The note's payload as the specification words it: an unsigned integer of \<open>w\<close> bytes in
  the byte order of the file. Used to state what \<open>locate_ptrs\<close> reads.
\<close>

fun le_bytes :: "nat \<Rightarrow> int \<Rightarrow> 8 word list" where
  "le_bytes 0 v = []"
| "le_bytes (Suc n) v = word_of_int v # le_bytes n (v div 256)"

definition encode_uint :: "bool \<Rightarrow> nat \<Rightarrow> int \<Rightarrow> 8 word list" where
  "encode_uint big w v = (if big then rev (le_bytes w v) else le_bytes w v)"

section \<open>Python equality\<close>

lemma py_eq_list_iff: "py_eq_list xs ys \<longleftrightarrow> list_all2 py_eq xs ys"
proof (induction xs arbitrary: ys)
  case Nil
  then show ?case by (cases ys) simp_all
next
  case (Cons x xs)
  then show ?case by (cases ys) simp_all
qed

lemma py_eq_items_iff:
  "py_eq_items xs ys \<longleftrightarrow> (\<forall>(k, v) \<in> set xs. \<exists>w. map_of ys k = Some w \<and> py_eq v w)"
  by (induction xs) (auto split: option.splits)

lemma wf_json_list_iff: "wf_json_list xs \<longleftrightarrow> (\<forall>x \<in> set xs. wf_json x)"
  by (induction xs) simp_all

lemma wf_json_items_iff: "wf_json_items kvs \<longleftrightarrow> (\<forall>(k, v) \<in> set kvs. wf_json v)"
  by (induction kvs) auto

lemma py_eq_refl: "wf_json a \<Longrightarrow> py_eq a a"
proof (induction a)
  case (JArr xs)
  then have "\<forall>x \<in> set xs. py_eq x x" by (simp add: wf_json_list_iff)
  then show ?case by (simp add: py_eq_list_iff list_all2_same)
next
  case (JObj kvs)
  have "\<exists>w. map_of kvs k = Some w \<and> py_eq v w" if kv: "(k, v) \<in> set kvs" for k v
  proof -
    have "map_of kvs k = Some v" using JObj.prems kv by simp
    moreover have "wf_json v" using JObj.prems kv by (auto simp: wf_json_items_iff)
    then have "py_eq v v" using JObj.IH [of "(k, v)" v] kv by simp
    ultimately show ?thesis by simp
  qed
  then show ?case by (auto simp: py_eq_items_iff)
qed simp_all

lemma py_eq_trans: "py_eq a b \<Longrightarrow> py_eq b c \<Longrightarrow> py_eq a c"
proof (induction a arbitrary: b c)
  case JNull
  then show ?case by (cases b; cases c) simp_all
next
  case (JBool x)
  then show ?case by (cases b; cases c) (simp_all split: if_splits)
next
  case (JInt x)
  then show ?case by (cases b; cases c) (simp_all split: if_splits)
next
  case (JStr x)
  then show ?case by (cases b; cases c) simp_all
next
  case (JArr xs)
  from JArr.prems(1) obtain ys where b: "b = JArr ys" by (cases b) simp_all
  from JArr.prems(2) b obtain zs where c: "c = JArr zs" by (cases c) simp_all
  have xy: "list_all2 py_eq xs ys" and yz: "list_all2 py_eq ys zs"
    using JArr.prems b c by (simp_all add: py_eq_list_iff)
  have "list_all2 py_eq xs zs"
    unfolding list_all2_conv_all_nth
  proof (intro conjI allI impI)
    show "length xs = length zs" using xy yz by (simp add: list_all2_lengthD)
  next
    fix i assume i: "i < length xs"
    then have "py_eq (xs ! i) (ys ! i)" using xy by (simp add: list_all2_nthD)
    moreover have "py_eq (ys ! i) (zs ! i)" using yz i xy by (simp add: list_all2_nthD2 list_all2_lengthD)
    ultimately show "py_eq (xs ! i) (zs ! i)" using JArr.IH [of "xs ! i"] i by simp
  qed
  then show ?case by (simp add: b c py_eq_list_iff)
next
  case (JObj xs)
  from JObj.prems(1) obtain ys where b: "b = JObj ys" by (cases b) simp_all
  from JObj.prems(2) b obtain zs where c: "c = JObj zs" by (cases c) simp_all
  have len: "length xs = length zs" using JObj.prems b c by simp
  have "\<exists>u. map_of zs k = Some u \<and> py_eq v u" if kv: "(k, v) \<in> set xs" for k v
  proof -
    obtain w where w: "map_of ys k = Some w" "py_eq v w"
      using JObj.prems(1) b kv by (auto simp: py_eq_items_iff)
    then have "(k, w) \<in> set ys" by (simp add: map_of_SomeD)
    then obtain u where u: "map_of zs k = Some u" "py_eq w u"
      using JObj.prems(2) b c by (auto simp: py_eq_items_iff)
    have "py_eq v u" using JObj.IH [of "(k, v)" v w u] kv w u by simp
    then show ?thesis using u by simp
  qed
  then show ?case using len by (auto simp: b c py_eq_items_iff)
qed

lemma py_in_iff: "py_in x ms \<longleftrightarrow> (\<exists>m \<in> set ms. py_eq m x)"
  by (induction ms) auto

lemma py_in_append: "py_in x (a @ b) \<longleftrightarrow> py_in x a \<or> py_in x b"
  by (auto simp: py_in_iff)

lemma merge_items_prefix: "\<exists>added. merge_items my xs = my @ added \<and> set added \<subseteq> set xs"
proof (induction xs arbitrary: my)
  case Nil
  show ?case by simp
next
  case (Cons x xs)
  show ?case
  proof (cases "py_in x my")
    case True
    then show ?thesis using Cons.IH [of my] by auto
  next
    case False
    obtain added where "merge_items (my @ [x]) xs = (my @ [x]) @ added" "set added \<subseteq> set xs"
      using Cons.IH [of "my @ [x]"] by blast
    then have "merge_items my (x # xs) = my @ (x # added) \<and> set (x # added) \<subseteq> set (x # xs)"
      using False by auto
    then show ?thesis by blast
  qed
qed

lemma py_in_merge_items:
  "py_in x (merge_items my xs) \<longleftrightarrow> py_in x my \<or> py_in x xs"
proof (induction xs arbitrary: my)
  case Nil
  show ?case by simp
next
  case (Cons i xs)
  show ?case
  proof (cases "py_in i my")
    case True
    then obtain m where m: "m \<in> set my" "py_eq m i" by (auto simp: py_in_iff)
    have "py_eq i x \<Longrightarrow> py_in x my"
      using m py_eq_trans [of m i x] by (auto simp: py_in_iff)
    then show ?thesis using True Cons.IH [of my] by auto
  next
    case False
    then show ?thesis using Cons.IH [of "my @ [i]"] by (auto simp: py_in_append)
  qed
qed

lemma merge_items_snoc:
  "merge_items my (xs @ [x]) =
     (if py_in x (merge_items my xs) then merge_items my xs else merge_items my xs @ [x])"
  by (induction xs arbitrary: my) simp_all

lemma merge_items_noop: "\<forall>x \<in> set xs. py_in x my \<Longrightarrow> merge_items my xs = my"
  by (induction xs arbitrary: my) simp_all

section \<open>Merging snapshots\<close>

lemma dict_get_set: "dict_get (dict_set d k v) k' = (if k' = k then Some v else dict_get d k')"
  by (induction d) auto

lemma dict_set_same: "dict_get d k = Some v \<Longrightarrow> dict_set d k v = d"
  by (induction d) (auto split: if_splits)

lemma dict_get_map_of: "dict_get d k = map_of d k"
  by (induction d) auto

lemma dict_get_None_iff: "dict_get d k = None \<longleftrightarrow> k \<notin> dict_keys d"
  by (simp add: dict_get_map_of map_of_eq_None_iff dict_keys_def)

lemma dict_keys_iff: "k \<in> dict_keys d \<longleftrightarrow> dict_get d k \<noteq> None"
  by (simp add: dict_get_None_iff)

lemma dict_keys_set: "dict_keys (dict_set d k v) = insert k (dict_keys d)"
  by (auto simp: dict_keys_iff dict_get_set split: if_splits)

lemma get_list_set: "get_list (dict_set d k v) k' = (if k' = k then v else get_list d k')"
  by (simp add: get_list_def dict_get_set)

lemma dict_set_get_list: "k \<in> dict_keys d \<Longrightarrow> dict_set d k (get_list d k) = d"
  by (cases "dict_get d k") (auto simp: get_list_def dict_set_same dict_get_None_iff)

lemma merge_refs_lists: "fst (merge_refs r d) = merge_lists r (entries_seen d)"
  by (induction r d rule: merge_refs.induct) (simp_all split: option.splits)

lemma merge_refs_error: "snd (merge_refs r d) = snd (merge_refs r' d)"
proof (induction d arbitrary: r r')
  case Nil
  show ?case by simp
next
  case (Cons e d)
  obtain u items where e: "e = (u, items)" by (cases e)
  show ?case using Cons.IH by (simp add: e split: option.splits)
qed

lemma dict_keys_merge_lists: "dict_keys (merge_lists r es) = dict_keys r \<union> fst ` set es"
  by (induction r es rule: merge_lists.induct) (auto simp: dict_keys_set)

lemma py_in_merge_lists:
  "py_in x (get_list (merge_lists r es) k)
     \<longleftrightarrow> py_in x (get_list r k) \<or> (\<exists>xs. (k, xs) \<in> set es \<and> py_in x xs)"
proof (induction r es rule: merge_lists.induct)
  case (1 r)
  show ?case by simp
next
  case (2 r k' xs es)
  show ?case
    unfolding merge_lists.simps "2.IH"
    by (auto simp: get_list_set py_in_merge_items)
qed

lemma merge_lists_noop:
  "\<forall>(k, xs) \<in> set es. k \<in> dict_keys r \<and> (\<forall>x \<in> set xs. py_in x (get_list r k))
     \<Longrightarrow> merge_lists r es = r"
proof (induction es)
  case Nil
  show ?case by simp
next
  case (Cons e es)
  obtain k xs where e: "e = (k, xs)" by (cases e)
  have "merge_items (get_list r k) xs = get_list r k"
    using Cons.prems e by (simp add: merge_items_noop)
  moreover have "k \<in> dict_keys r" using Cons.prems e by simp
  ultimately have "dict_set r k (merge_items (get_list r k) xs) = r"
    by (simp add: dict_set_get_list)
  then show ?case using Cons e by simp
qed

lemma py_in_self: "py_eq x x \<Longrightarrow> x \<in> set xs \<Longrightarrow> py_in x xs"
  by (auto simp: py_in_iff)

lemma merge_lists_idem:
  assumes "\<forall>(k, xs) \<in> set es. \<forall>x \<in> set xs. py_eq x x"
  shows "merge_lists (merge_lists r es) es = merge_lists r es"
proof (rule merge_lists_noop, clarify)
  fix k xs assume kx: "(k, xs) \<in> set es"
  have "k \<in> dict_keys (merge_lists r es)"
    using kx by (force simp: dict_keys_merge_lists)
  moreover have "\<forall>x \<in> set xs. py_in x (get_list (merge_lists r es) k)"
  proof
    fix x assume x: "x \<in> set xs"
    then have "py_in x xs" using assms kx py_in_self by blast
    then show "py_in x (get_list (merge_lists r es) k)"
      using kx by (auto simp: py_in_merge_lists)
  qed
  ultimately show "k \<in> dict_keys (merge_lists r es) \<and> (\<forall>x \<in> set xs. py_in x (get_list (merge_lists r es) k))"
    by simp
qed

lemma py_iter_refl: "wf_json j \<Longrightarrow> py_iter j = Some xs \<Longrightarrow> x \<in> set xs \<Longrightarrow> py_eq x x"
  by (cases j) (auto simp: wf_json_list_iff py_eq_refl)

lemma entries_seen_refl:
  "wf_json_items d \<Longrightarrow> \<forall>(k, xs) \<in> set (entries_seen d). \<forall>x \<in> set xs. py_eq x x"
proof (induction d)
  case Nil
  show ?case by simp
next
  case (Cons e d)
  obtain u items where e: "e = (u, items)" by (cases e)
  show ?case using Cons py_iter_refl [of items]
    by (auto simp: e split: option.splits)
qed

lemma wf_json_dict_get:
  "wf_json_items d \<Longrightarrow> dict_get d k = Some v \<Longrightarrow> wf_json v"
  by (induction d) (auto split: if_splits)

lemma refs_load_json: "refs (fst (load_json s data)) = merge_lists (refs s) (snapshot_entries data)"
  by (simp add: load_json_def snapshot_entries_def merge_refs_lists [symmetric] split_beta
           split: json.splits option.splits)

text \<open>
  C2. Merging the same snapshot a second time changes nothing: the store, and the outcome
  of the merge, are those of the first merge. The snapshot is a parsed document, so its
  dicts have distinct keys.
\<close>

theorem snapshot_merge_idempotent:
  assumes "wf_json data"
  shows "load_json (fst (load_json s data)) data = load_json s data"
proof (cases data)
  case (JObj members)
  show ?thesis
  proof (cases "dict_get members ''refs''")
    case None
    then show ?thesis by (simp add: load_json_def JObj)
  next
    case (Some r)
    show ?thesis
    proof (cases r)
      case (JObj entries)
      have "wf_json r" using assms Some \<open>data = JObj members\<close> wf_json_dict_get by auto
      then have wf: "wf_json_items entries" using JObj by simp
      let ?r1 = "fst (merge_refs (refs s) entries)"
      have "fst (merge_refs ?r1 entries) = ?r1"
        using merge_lists_idem [OF entries_seen_refl [OF wf]] by (simp add: merge_refs_lists)
      moreover have "snd (merge_refs ?r1 entries) = snd (merge_refs (refs s) entries)"
        by (rule merge_refs_error)
      ultimately have "merge_refs ?r1 entries = (?r1, snd (merge_refs (refs s) entries))"
        by (metis prod.collapse)
      then show ?thesis
        using Some JObj \<open>data = JObj members\<close>
        by (simp add: load_json_def split_beta)
    qed (simp_all add: load_json_def \<open>data = JObj members\<close> Some)
  qed
qed (simp_all add: load_json_def)

theorem snapshot_merge_idempotent_witness:
  "wf_json (JObj [(''refs'', JObj [(''AAAAA-BBBBB'', JArr [JObj [(''file'', JStr ''a.c''), (''line'', JInt 1)], JInt 1, JBool True])])])
   \<and> load_json (fst (load_json Xrelfo
        (JObj [(''refs'', JObj [(''AAAAA-BBBBB'', JArr [JObj [(''file'', JStr ''a.c''), (''line'', JInt 1)], JInt 1, JBool True])])])))
        (JObj [(''refs'', JObj [(''AAAAA-BBBBB'', JArr [JObj [(''file'', JStr ''a.c''), (''line'', JInt 1)], JInt 1, JBool True])])])
     = (Xrelfo\<lparr>refs := [(Some ''AAAAA-BBBBB'', [JObj [(''file'', JStr ''a.c''), (''line'', JInt 1)], JInt 1])]\<rparr>, None)"
proof -
  have wf: "wf_json (JObj [(''refs'', JObj [(''AAAAA-BBBBB'', JArr [JObj [(''file'', JStr ''a.c''), (''line'', JInt 1)], JInt 1, JBool True])])])"
    by simp
  have "load_json Xrelfo (JObj [(''refs'', JObj [(''AAAAA-BBBBB'', JArr [JObj [(''file'', JStr ''a.c''), (''line'', JInt 1)], JInt 1, JBool True])])])
     = (Xrelfo\<lparr>refs := [(Some ''AAAAA-BBBBB'', [JObj [(''file'', JStr ''a.c''), (''line'', JInt 1)], JInt 1])]\<rparr>, None)"
    by (simp add: load_json_def Xrelfo_def get_list_def)
  then show ?thesis using snapshot_merge_idempotent [OF wf, of Xrelfo] wf by simp
qed























text \<open>
  C10. Merging a snapshot leaves the \<open>cli\<close> mapping and the shared lists of the store as
  they were, and reads nothing of the snapshot but its \<open>refs\<close> member: two snapshots with
  the same \<open>refs\<close> member merge alike.
\<close>

theorem snapshot_merge_frame:
  "cli (fst (load_json s data)) = cli s
   \<and> heap (fst (load_json s data)) = heap s
   \<and> next_addr (fst (load_json s data)) = next_addr s
   \<and> (dict_get members ''refs'' = dict_get members' ''refs''
        \<longrightarrow> load_json s (JObj members) = load_json s (JObj members'))"
  by (simp add: load_json_def split_beta split: json.splits option.splits)

theorem snapshot_merge_frame_witness:
  "load_json (cmd_to_dict \<lparr>ce_xref = \<lparr>o_file = ''a.c'', o_line = 1, o_func = ''f''\<rparr>, name = ''show version'',
         string = ''show version'', doc = ''Show version'', attr = 0, dict_nodes = 0\<rparr> Xrelfo)
      (JObj [(''refs'', JObj [(''AAAAA-BBBBB'', JArr [JInt 1])]), (''cli'', JObj [(''exit'', JObj [])])])
   = load_json (cmd_to_dict \<lparr>ce_xref = \<lparr>o_file = ''a.c'', o_line = 1, o_func = ''f''\<rparr>, name = ''show version'',
         string = ''show version'', doc = ''Show version'', attr = 0, dict_nodes = 0\<rparr> Xrelfo)
      (JObj [(''refs'', JObj [(''AAAAA-BBBBB'', JArr [JInt 1])])])
   \<and> cli (fst (load_json (cmd_to_dict \<lparr>ce_xref = \<lparr>o_file = ''a.c'', o_line = 1, o_func = ''f''\<rparr>, name = ''show version'',
         string = ''show version'', doc = ''Show version'', attr = 0, dict_nodes = 0\<rparr> Xrelfo)
      (JObj [(''refs'', JObj [(''AAAAA-BBBBB'', JArr [JInt 1])]), (''cli'', JObj [(''exit'', JObj [])])])))
     = cli (cmd_to_dict \<lparr>ce_xref = \<lparr>o_file = ''a.c'', o_line = 1, o_func = ''f''\<rparr>, name = ''show version'',
         string = ''show version'', doc = ''Show version'', attr = 0, dict_nodes = 0\<rparr> Xrelfo)"
proof -
  let ?s = "cmd_to_dict \<lparr>ce_xref = \<lparr>o_file = ''a.c'', o_line = 1, o_func = ''f''\<rparr>, name = ''show version'',
         string = ''show version'', doc = ''Show version'', attr = 0, dict_nodes = 0\<rparr> Xrelfo"
  let ?m = "[(''refs'', JObj [(''AAAAA-BBBBB'', JArr [JInt 1])]), (''cli'', JObj [(''exit'', JObj [])])]"
  let ?m' = "[(''refs'', JObj [(''AAAAA-BBBBB'', JArr [JInt 1])])]"
  note t = snapshot_merge_frame [of ?s "JObj ?m" ?m ?m']
  have h: "dict_get ?m ''refs'' = dict_get ?m' ''refs''" by simp
  have a: "cli (fst (load_json ?s (JObj ?m))) = cli ?s" using t by (rule conjunct1)
  have b: "load_json ?s (JObj ?m) = load_json ?s (JObj ?m')" using t h by blast
  show ?thesis using a b by blast
qed

lemma get_list_merge_lists_other:
  "k \<notin> fst ` set es \<Longrightarrow> get_list (merge_lists r es) k = get_list r k"
  by (induction r es rule: merge_lists.induct) (auto simp: get_list_set)

lemma get_list_merge_lists_distinct:
  "distinct (map fst es) \<Longrightarrow> (k, xs) \<in> set es
     \<Longrightarrow> get_list (merge_lists r es) k = merge_items (get_list r k) xs"
proof (induction r es rule: merge_lists.induct)
  case (1 r)
  then show ?case by simp
next
  case (2 r k' xs' es)
  show ?case
  proof (cases "k' = k")
    case True
    then have "xs' = xs" and "k \<notin> fst ` set es"
      using "2.prems" by (auto simp: rev_image_eqI)
    then show ?thesis
      using True by (simp add: get_list_merge_lists_other get_list_set)
  next
    case False
    then show ?thesis using 2 by (auto simp: get_list_set)
  qed
qed

lemma entries_seen_complete:
  "snd (merge_refs r d) = None
     \<Longrightarrow> entries_seen d = map (\<lambda>e. (Some (fst e), case py_iter (snd e) of Some xs \<Rightarrow> xs | None \<Rightarrow> [])) d
         \<and> (\<forall>e \<in> set d. py_iter (snd e) \<noteq> None)"
proof (induction d arbitrary: r)
  case Nil
  show ?case by simp
next
  case (Cons e d)
  obtain u items where e: "e = (u, items)" by (cases e)
  show ?case
  proof (cases "py_iter items")
    case None
    then show ?thesis using Cons.prems by (simp add: e)
  next
    case (Some xs)
    then show ?thesis using Cons.prems Cons.IH by (simp add: e)
  qed
qed

lemma snd_load_json:
  "dict_get members ''refs'' = Some (JObj entries)
     \<Longrightarrow> snd (load_json s (JObj members)) = snd (merge_refs (refs s) entries)"
  by (simp add: load_json_def split_beta)

lemma snapshot_entries_JObj:
  "dict_get members ''refs'' = Some (JObj entries)
     \<Longrightarrow> snapshot_entries (JObj members) = entries_seen entries"
  by (simp add: snapshot_entries_def)

lemma logmsg_to_dict_refs:
  assumes "logmsg_to_dict uidhash m s = Inr s'"
  shows "\<exists>d. lm_xrefdata m = Some d
           \<and> get_list (refs s') (uid uidhash d)
               = get_list (refs s) (uid uidhash d) @ [JObj (logmsg_jsobj m)]
           \<and> (\<forall>k. k \<noteq> uid uidhash d \<longrightarrow> get_list (refs s') k = get_list (refs s) k)"
  using assms
  by (auto simp: logmsg_to_dict_def Let_def get_list_set split: option.splits)

text \<open>
  C1, as the code has it. A snapshot merge that completes leaves, under every identity
  of the snapshot, the list the store had extended by the loop \<open>merge_items\<close>, and
  leaves every other identity alone; the loop appends an occurrence unless the list, as
  it stands when the occurrence is reached, holds one equal to it by content. A log
  message found in a binary is always appended under its identity.
\<close>

theorem refs_merge_rule:
  "(wf_json (JObj members) \<and> dict_get members ''refs'' = Some (JObj entries)
      \<and> snd (load_json s (JObj members)) = None
    \<longrightarrow> (\<forall>(u, items) \<in> set entries. \<exists>xs. py_iter items = Some xs
            \<and> get_list (refs (fst (load_json s (JObj members)))) (Some u)
                = merge_items (get_list (refs s) (Some u)) xs)
        \<and> (\<forall>k. k \<notin> Some ` fst ` set entries
            \<longrightarrow> get_list (refs (fst (load_json s (JObj members)))) k = get_list (refs s) k))
   \<and> merge_items my [] = my
   \<and> merge_items my (xs @ [x])
       = (if py_in x (merge_items my xs) then merge_items my xs else merge_items my xs @ [x])
   \<and> (logmsg_to_dict uidhash m s = Inr s'
       \<longrightarrow> (\<exists>d. lm_xrefdata m = Some d
              \<and> get_list (refs s') (uid uidhash d)
                  = get_list (refs s) (uid uidhash d) @ [JObj (logmsg_jsobj m)]
              \<and> (\<forall>k. k \<noteq> uid uidhash d \<longrightarrow> get_list (refs s') k = get_list (refs s) k)))"
proof (intro conjI impI)
  assume a: "wf_json (JObj members) \<and> dict_get members ''refs'' = Some (JObj entries)
      \<and> snd (load_json s (JObj members)) = None"
  then have get: "dict_get members ''refs'' = Some (JObj entries)" by simp
  have "wf_json (JObj entries)" using a wf_json_dict_get [of members "''refs''"] by simp
  then have dist: "distinct (map fst entries)" by simp
  have noerr: "snd (merge_refs (refs s) entries) = None" using a snd_load_json [OF get, of s] by simp
  let ?es = "map (\<lambda>e. (Some (fst e), case py_iter (snd e) of Some xs \<Rightarrow> xs | None \<Rightarrow> [])) entries"
  have es: "entries_seen entries = ?es" and it: "\<forall>e \<in> set entries. py_iter (snd e) \<noteq> None"
    using entries_seen_complete [OF noerr] by simp_all
  have r: "refs (fst (load_json s (JObj members))) = merge_lists (refs s) ?es"
    by (simp add: refs_load_json snapshot_entries_JObj [OF get] es)
  have "map fst ?es = map Some (map fst entries)" by simp
  then have dist': "distinct (map fst ?es)" using dist by (simp only: distinct_map) (simp add: distinct_map)
  show "\<forall>(u, items) \<in> set entries. \<exists>xs. py_iter items = Some xs
            \<and> get_list (refs (fst (load_json s (JObj members)))) (Some u)
                = merge_items (get_list (refs s) (Some u)) xs"
  proof (clarify)
    fix u items assume ui: "(u, items) \<in> set entries"
    then obtain xs where xs: "py_iter items = Some xs" using it by fastforce
    then have "(Some u, xs) \<in> set ?es" using ui by force
    then have "get_list (merge_lists (refs s) ?es) (Some u) = merge_items (get_list (refs s) (Some u)) xs"
      using dist' by (rule get_list_merge_lists_distinct [rotated])
    then show "\<exists>xs. py_iter items = Some xs
            \<and> get_list (refs (fst (load_json s (JObj members)))) (Some u)
                = merge_items (get_list (refs s) (Some u)) xs"
      using xs r by simp
  qed
  show "\<forall>k. k \<notin> Some ` fst ` set entries
            \<longrightarrow> get_list (refs (fst (load_json s (JObj members)))) k = get_list (refs s) k"
  proof (intro allI impI)
    fix k assume "k \<notin> Some ` fst ` set entries"
    then have "k \<notin> fst ` set ?es" by force
    then have "get_list (merge_lists (refs s) ?es) k = get_list (refs s) k"
      by (rule get_list_merge_lists_other)
    then show "get_list (refs (fst (load_json s (JObj members)))) k = get_list (refs s) k"
      using r by simp
  qed
next
  show "merge_items my [] = my" by simp
next
  show "merge_items my (xs @ [x])
       = (if py_in x (merge_items my xs) then merge_items my xs else merge_items my xs @ [x])"
    by (rule merge_items_snoc)
next
  assume "logmsg_to_dict uidhash m s = Inr s'"
  then show "\<exists>d. lm_xrefdata m = Some d
              \<and> get_list (refs s') (uid uidhash d)
                  = get_list (refs s) (uid uidhash d) @ [JObj (logmsg_jsobj m)]
              \<and> (\<forall>k. k \<noteq> uid uidhash d \<longrightarrow> get_list (refs s') k = get_list (refs s) k)"
    by (rule logmsg_to_dict_refs)
qed

theorem refs_merge_rule_witness:
  "snd (load_json (Xrelfo\<lparr>refs := [(Some ''AAAAA-BBBBB'', [JObj [(''file'', JStr ''a.c''), (''line'', JInt 1)]])]\<rparr>)
      (JObj [(''refs'', JObj [(''AAAAA-BBBBB'',
          JArr [JObj [(''line'', JInt 1), (''file'', JStr ''a.c'')],
                JObj [(''file'', JStr ''b.c''), (''line'', JInt 2)]])])])) = None
   \<and> get_list (refs (fst (load_json (Xrelfo\<lparr>refs := [(Some ''AAAAA-BBBBB'', [JObj [(''file'', JStr ''a.c''), (''line'', JInt 1)]])]\<rparr>)
      (JObj [(''refs'', JObj [(''AAAAA-BBBBB'',
          JArr [JObj [(''line'', JInt 1), (''file'', JStr ''a.c'')],
                JObj [(''file'', JStr ''b.c''), (''line'', JInt 2)]])])])))) (Some ''AAAAA-BBBBB'')
     = [JObj [(''file'', JStr ''a.c''), (''line'', JInt 1)], JObj [(''file'', JStr ''b.c''), (''line'', JInt 2)]]
   \<and> logmsg_to_dict (\<lambda>f h a b. f @ h)
        \<lparr>lm_xref = \<lparr>o_file = ''a.c'', o_line = 1, o_func = ''f''\<rparr>,
         lm_xrefdata = Some \<lparr>xref = \<lparr>o_file = ''a.c'', o_line = 1, o_func = ''f''\<rparr>, hashstr = Some ''msg'',
           hashu32_0 = 7, hashu32_1 = 9, stored_uid = [], addr = 4096\<rparr>,
         priority = 6, ec = 0, fmtstring = ''msg''\<rparr> Xrelfo
      = Inr (Xrelfo\<lparr>refs := [(Some ''a.cmsg'', [JObj (logmsg_jsobj
        \<lparr>lm_xref = \<lparr>o_file = ''a.c'', o_line = 1, o_func = ''f''\<rparr>,
         lm_xrefdata = Some \<lparr>xref = \<lparr>o_file = ''a.c'', o_line = 1, o_func = ''f''\<rparr>, hashstr = Some ''msg'',
           hashu32_0 = 7, hashu32_1 = 9, stored_uid = [], addr = 4096\<rparr>,
         priority = 6, ec = 0, fmtstring = ''msg''\<rparr>)])]\<rparr>)"
proof -
  let ?s = "Xrelfo\<lparr>refs := [(Some ''AAAAA-BBBBB'', [JObj [(''file'', JStr ''a.c''), (''line'', JInt 1)]])]\<rparr>"
  let ?e = "[(''AAAAA-BBBBB'',
          JArr [JObj [(''line'', JInt 1), (''file'', JStr ''a.c'')],
                JObj [(''file'', JStr ''b.c''), (''line'', JInt 2)]])]"
  let ?m = "[(''refs'', JObj ?e)]"
  let ?d = "\<lparr>xref = \<lparr>o_file = ''a.c'', o_line = 1, o_func = ''f''\<rparr>, hashstr = Some ''msg'',
           hashu32_0 = 7, hashu32_1 = 9, stored_uid = [], addr = 4096\<rparr>"
  let ?l = "\<lparr>lm_xref = \<lparr>o_file = ''a.c'', o_line = 1, o_func = ''f''\<rparr>,
         lm_xrefdata = Some ?d, priority = 6, ec = 0, fmtstring = ''msg''\<rparr>"
  let ?s' = "Xrelfo\<lparr>refs := [(Some ''a.cmsg'', [JObj (logmsg_jsobj ?l)])]\<rparr>"
  note t = refs_merge_rule [of ?m ?e ?s]
  note t' = refs_merge_rule [where s = Xrelfo and m = ?l and s' = ?s' and uidhash = "\<lambda>f h a b. f @ h"]
  have h1: "wf_json (JObj ?m) \<and> dict_get ?m ''refs'' = Some (JObj ?e)
      \<and> snd (load_json ?s (JObj ?m)) = None"
    by (simp add: load_json_def Xrelfo_def get_list_def)
  have h2: "logmsg_to_dict (\<lambda>f h a b. f @ h) ?l Xrelfo = Inr ?s'"
    by (simp add: logmsg_to_dict_def uid_def Xrelfo_def get_list_def)
  have "\<forall>(u, items) \<in> set ?e. \<exists>xs. py_iter items = Some xs
            \<and> get_list (refs (fst (load_json ?s (JObj ?m)))) (Some u)
                = merge_items (get_list (refs ?s) (Some u)) xs"
    using t h1 by blast
  then have "get_list (refs (fst (load_json ?s (JObj ?m)))) (Some ''AAAAA-BBBBB'')
      = [JObj [(''file'', JStr ''a.c''), (''line'', JInt 1)], JObj [(''file'', JStr ''b.c''), (''line'', JInt 2)]]"
    by (simp add: get_list_def)
  moreover have "\<exists>d. lm_xrefdata ?l = Some d
              \<and> get_list (refs ?s') (uid (\<lambda>f h a b. f @ h) d)
                  = get_list (refs Xrelfo) (uid (\<lambda>f h a b. f @ h) d) @ [JObj (logmsg_jsobj ?l)]"
    using t' h2 by blast
  ultimately show ?thesis using h1 h2 by simp
qed

text \<open>
  C1 as stated fails for the log messages of a binary: the same descriptor contributed
  twice is in the list twice, though the first is equal to the second by content.
\<close>

theorem elf_logmsg_dedup_counterexample:
  "logmsg_to_dict (\<lambda>f h a b. f @ h)
        \<lparr>lm_xref = \<lparr>o_file = ''a.c'', o_line = 1, o_func = ''f''\<rparr>,
         lm_xrefdata = Some \<lparr>xref = \<lparr>o_file = ''a.c'', o_line = 1, o_func = ''f''\<rparr>, hashstr = Some ''msg'',
           hashu32_0 = 7, hashu32_1 = 9, stored_uid = [], addr = 4096\<rparr>,
         priority = 6, ec = 0, fmtstring = ''msg''\<rparr>
        (Xrelfo\<lparr>refs := [(Some ''a.cmsg'', [JObj (logmsg_jsobj
          \<lparr>lm_xref = \<lparr>o_file = ''a.c'', o_line = 1, o_func = ''f''\<rparr>,
           lm_xrefdata = Some \<lparr>xref = \<lparr>o_file = ''a.c'', o_line = 1, o_func = ''f''\<rparr>, hashstr = Some ''msg'',
             hashu32_0 = 7, hashu32_1 = 9, stored_uid = [], addr = 4096\<rparr>,
           priority = 6, ec = 0, fmtstring = ''msg''\<rparr>)])]\<rparr>)
     = Inr (Xrelfo\<lparr>refs := [(Some ''a.cmsg'',
         [JObj (logmsg_jsobj
          \<lparr>lm_xref = \<lparr>o_file = ''a.c'', o_line = 1, o_func = ''f''\<rparr>,
           lm_xrefdata = Some \<lparr>xref = \<lparr>o_file = ''a.c'', o_line = 1, o_func = ''f''\<rparr>, hashstr = Some ''msg'',
             hashu32_0 = 7, hashu32_1 = 9, stored_uid = [], addr = 4096\<rparr>,
           priority = 6, ec = 0, fmtstring = ''msg''\<rparr>),
          JObj (logmsg_jsobj
          \<lparr>lm_xref = \<lparr>o_file = ''a.c'', o_line = 1, o_func = ''f''\<rparr>,
           lm_xrefdata = Some \<lparr>xref = \<lparr>o_file = ''a.c'', o_line = 1, o_func = ''f''\<rparr>, hashstr = Some ''msg'',
             hashu32_0 = 7, hashu32_1 = 9, stored_uid = [], addr = 4096\<rparr>,
           priority = 6, ec = 0, fmtstring = ''msg''\<rparr>)])]\<rparr>)
   \<and> py_in (JObj (logmsg_jsobj
          \<lparr>lm_xref = \<lparr>o_file = ''a.c'', o_line = 1, o_func = ''f''\<rparr>,
           lm_xrefdata = Some \<lparr>xref = \<lparr>o_file = ''a.c'', o_line = 1, o_func = ''f''\<rparr>, hashstr = Some ''msg'',
             hashu32_0 = 7, hashu32_1 = 9, stored_uid = [], addr = 4096\<rparr>,
           priority = 6, ec = 0, fmtstring = ''msg''\<rparr>))
        [JObj (logmsg_jsobj
          \<lparr>lm_xref = \<lparr>o_file = ''a.c'', o_line = 1, o_func = ''f''\<rparr>,
           lm_xrefdata = Some \<lparr>xref = \<lparr>o_file = ''a.c'', o_line = 1, o_func = ''f''\<rparr>, hashstr = Some ''msg'',
             hashu32_0 = 7, hashu32_1 = 9, stored_uid = [], addr = 4096\<rparr>,
           priority = 6, ec = 0, fmtstring = ''msg''\<rparr>)]"
proof -
  let ?l = "\<lparr>lm_xref = \<lparr>o_file = ''a.c'', o_line = 1, o_func = ''f''\<rparr>,
           lm_xrefdata = Some \<lparr>xref = \<lparr>o_file = ''a.c'', o_line = 1, o_func = ''f''\<rparr>, hashstr = Some ''msg'',
             hashu32_0 = 7, hashu32_1 = 9, stored_uid = [], addr = 4096\<rparr>,
           priority = 6, ec = 0, fmtstring = ''msg''\<rparr>"
  have j: "logmsg_jsobj ?l = [(''file'', JStr ''a.c''), (''line'', JInt 1), (''func'', JStr ''f''),
      (''fmtstring'', JStr ''msg''), (''priority'', JInt 6), (''type'', JStr ''logmsg'')]"
    by (simp add: logmsg_jsobj_def origin_dict_def)
  have "py_in (JObj (logmsg_jsobj ?l)) [JObj (logmsg_jsobj ?l)]"
    unfolding j by simp
  moreover have "logmsg_to_dict (\<lambda>f h a b. f @ h) ?l
        (Xrelfo\<lparr>refs := [(Some ''a.cmsg'', [JObj (logmsg_jsobj ?l)])]\<rparr>)
      = Inr (Xrelfo\<lparr>refs := [(Some ''a.cmsg'', [JObj (logmsg_jsobj ?l), JObj (logmsg_jsobj ?l)])]\<rparr>)"
    by (simp add: logmsg_to_dict_def uid_def Xrelfo_def get_list_def)
  ultimately show ?thesis by simp
qed

section \<open>Writing the store and reading it back\<close>

lemma sort_keys_list_map: "sort_keys_list xs = map sort_keys xs"
  by (induction xs) simp_all

lemma sort_keys_items_map: "sort_keys_items kvs = map (\<lambda>e. (fst e, sort_keys (snd e))) kvs"
  by (induction kvs) auto

lemma distinct_fst_sort_key:
  "distinct (map fst (sort_key f d)) \<longleftrightarrow> distinct (map fst d)"
proof -
  have "mset (map fst (sort_key f d)) = mset (map fst d)" by simp
  then show ?thesis by (rule mset_eq_imp_distinct_iff)
qed

lemma dict_get_sort_key:
  assumes "distinct (map fst d)"
  shows "dict_get (sort_key f d) k = dict_get d k"
proof -
  have "map_of (sort_key f d) = map_of d"
    using assms by (subst map_of_inject_set) (simp_all add: distinct_fst_sort_key)
  then show ?thesis by (simp add: dict_get_map_of)
qed

lemma dict_get_SomeI:
  "distinct (map fst d) \<Longrightarrow> (k, v) \<in> set d \<Longrightarrow> dict_get d k = Some v"
  by (simp add: dict_get_map_of)

lemma py_eq_sort_keys: "wf_json v \<Longrightarrow> py_eq v (sort_keys v) \<and> py_eq (sort_keys v) v"
proof (induction v)
  case (JArr xs)
  then have "\<forall>x \<in> set xs. py_eq x (sort_keys x) \<and> py_eq (sort_keys x) x"
    by (simp add: wf_json_list_iff)
  then have "list_all2 py_eq xs (map sort_keys xs) \<and> list_all2 py_eq (map sort_keys xs) xs"
    by (simp add: list_all2_conv_all_nth)
  then show ?case by (simp add: py_eq_list_iff sort_keys_list_map)
next
  case (JObj kvs)
  let ?s = "sort_key fst (map (\<lambda>e. (fst e, sort_keys (snd e))) kvs)"
  have dist: "distinct (map fst kvs)" using JObj.prems by simp
  have dist': "distinct (map fst ?s)"
    using dist by (simp add: distinct_fst_sort_key comp_def)
  have ih: "py_eq v (sort_keys v) \<and> py_eq (sort_keys v) v" if "(k, v) \<in> set kvs" for k v
  proof -
    have "wf_json v" using JObj.prems that by (auto simp: wf_json_items_iff)
    then show ?thesis using JObj.IH [of "(k, v)" v] that by simp
  qed
  have a: "\<exists>w. map_of ?s k = Some w \<and> py_eq v w" if kv: "(k, v) \<in> set kvs" for k v
  proof -
    have "(k, sort_keys v) \<in> set ?s" using kv by force
    then have "map_of ?s k = Some (sort_keys v)" using dist' by simp
    then show ?thesis using ih [OF kv] by simp
  qed
  have b: "\<exists>w. map_of kvs k = Some w \<and> py_eq v' w" if kv: "(k, v') \<in> set ?s" for k v'
  proof -
    obtain v where v: "(k, v) \<in> set kvs" "v' = sort_keys v" using kv by auto
    then have "map_of kvs k = Some v" using dist by simp
    then show ?thesis using ih [OF v(1)] v(2) by simp
  qed
  show ?case
    using a b by (auto simp: py_eq_items_iff sort_keys_items_map)
qed simp_all

lemma py_in_sort_keys:
  assumes "wf_json x" "\<forall>m \<in> set my. wf_json m"
  shows "py_in (sort_keys x) (map sort_keys my) \<longleftrightarrow> py_in x my"
proof -
  have "py_eq (sort_keys m) (sort_keys x) \<longleftrightarrow> py_eq m x" if "m \<in> set my" for m
  proof
    assume "py_eq (sort_keys m) (sort_keys x)"
    then have "py_eq m (sort_keys x)"
      using py_eq_sort_keys [of m] assms(2) that py_eq_trans by blast
    then show "py_eq m x" using py_eq_sort_keys [OF assms(1)] py_eq_trans by blast
  next
    assume "py_eq m x"
    then have "py_eq (sort_keys m) x"
      using py_eq_sort_keys [of m] assms(2) that py_eq_trans by blast
    then show "py_eq (sort_keys m) (sort_keys x)"
      using py_eq_sort_keys [OF assms(1)] py_eq_trans by blast
  qed
  then show ?thesis by (auto simp: py_in_iff)
qed

lemma merge_items_sort_keys:
  assumes "\<forall>x \<in> set xs. wf_json x" "\<forall>m \<in> set my. wf_json m"
  shows "merge_items (map sort_keys my) (map sort_keys xs) = map sort_keys (merge_items my xs)"
  using assms
proof (induction xs arbitrary: my)
  case Nil
  show ?case by simp
next
  case (Cons x xs)
  have px: "py_in (sort_keys x) (map sort_keys my) \<longleftrightarrow> py_in x my"
    using Cons.prems by (intro py_in_sort_keys) simp_all
  show ?case
  proof (cases "py_in x my")
    case True
    then show ?thesis using px Cons.IH [of my] Cons.prems by simp
  next
    case False
    then show ?thesis using px Cons.IH [of "my @ [x]"] Cons.prems by simp
  qed
qed

lemma dict_set_fresh: "k \<notin> dict_keys r \<Longrightarrow> dict_set r k v = r @ [(k, v)]"
  by (induction r) (auto simp: dict_keys_def)

lemma get_list_fresh: "k \<notin> dict_keys r \<Longrightarrow> get_list r k = []"
  by (simp add: get_list_def dict_get_None_iff [symmetric])

lemma merge_lists_fresh:
  "distinct (map fst es) \<Longrightarrow> fst ` set es \<inter> dict_keys r = {}
     \<Longrightarrow> merge_lists r es = r @ map (\<lambda>e. (fst e, merge_items [] (snd e))) es"
proof (induction r es rule: merge_lists.induct)
  case (1 r)
  show ?case by simp
next
  case (2 r k xs es)
  have k: "k \<notin> dict_keys r" using "2.prems" by auto
  let ?r1 = "r @ [(k, merge_items [] xs)]"
  have "fst ` set es \<inter> dict_keys ?r1 = {}"
    using "2.prems" by (auto simp: dict_keys_def)
  then have "merge_lists ?r1 es = ?r1 @ map (\<lambda>e. (fst e, merge_items [] (snd e))) es"
    using "2.IH" "2.prems"(1) k by (simp add: dict_set_fresh get_list_fresh)
  then show ?case using k by (simp add: dict_set_fresh get_list_fresh)
qed


lemma str_keys_Some_ex:
  "str_keys r \<noteq> None
     \<Longrightarrow> \<exists>us. r = map (\<lambda>e. (Some (fst e), snd e)) us
            \<and> str_keys r = Some (map (\<lambda>e. (fst e, JArr (snd e))) us)"
proof (induction r rule: str_keys.induct)
  case 1
  show ?case by simp
next
  case (2 xs r)
  then show ?case by simp
next
  case (3 u xs r)
  then obtain us where us: "r = map (\<lambda>e. (Some (fst e), snd e)) us"
      "str_keys r = Some (map (\<lambda>e. (fst e, JArr (snd e))) us)"
    by (cases "str_keys r") auto
  have a: "(Some u, xs) # r = map (\<lambda>e. (Some (fst e), snd e)) ((u, xs) # us)"
    using us(1) by simp
  have b: "str_keys ((Some u, xs) # r) = Some (map (\<lambda>e. (fst e, JArr (snd e))) ((u, xs) # us))"
    using us(2) by simp
  show ?case
  proof (intro exI conjI)
    show "(Some u, xs) # r = map (\<lambda>e. (Some (fst e), snd e)) ((u, xs) # us)" by (rule a)
    show "str_keys ((Some u, xs) # r) = Some (map (\<lambda>e. (fst e, JArr (snd e))) ((u, xs) # us))"
      by (rule b)
  qed
qed

lemma merge_refs_no_error:
  "\<forall>e \<in> set d. py_iter (snd e) \<noteq> None \<Longrightarrow> snd (merge_refs r d) = None"
  by (induction r d rule: merge_refs.induct) (auto split: option.splits)

lemma refs_eq_items_iff:
  "refs_eq_items r r' \<longleftrightarrow> (\<forall>(k, ys) \<in> set r. \<exists>xs. dict_get r' k = Some xs \<and> py_eq_list ys xs)"
  by (induction r) (auto split: option.splits)

lemma py_eq_list_sort_keys: "wf_json_list xs \<Longrightarrow> py_eq_list (map sort_keys xs) xs"
  by (simp add: py_eq_list_iff list_all2_conv_all_nth wf_json_list_iff py_eq_sort_keys)

lemma load_json_refs_member:
  "dict_get members ''refs'' = Some (JObj entries)
     \<Longrightarrow> load_json s (JObj members)
          = (s\<lparr>refs := fst (merge_refs (refs s) entries)\<rparr>, snd (merge_refs (refs s) entries))"
  by (simp add: load_json_def split_beta)

lemma distinct_map_Some: "distinct (map Some xs) \<longleftrightarrow> distinct xs"
  by (simp add: distinct_map)

text \<open>
  C4, as the code has it. When every identity of the store is a string and no list of
  \<open>refs\<close> holds two occurrences equal by content, the primary output can be written, and
  merging it into a fresh store raises nothing and gives a \<open>refs\<close> mapping that Python
  holds equal to the original one. The \<open>cli\<close> mapping is not read back: the fresh store
  has none.
\<close>

theorem dump_reload_refs:
  assumes "distinct (map fst (refs s))"
    and "str_keys (refs s) \<noteq> None"
    and "\<forall>(k, xs) \<in> set (refs s). wf_json_list xs \<and> merge_items [] xs = xs"
  shows "\<exists>d. dump s = Inr d
           \<and> snd (load_json Xrelfo d) = None
           \<and> refs_eq (refs (fst (load_json Xrelfo d))) (refs s)
           \<and> cli (fst (load_json Xrelfo d)) = None"
proof -
  obtain us where us: "refs s = map (\<lambda>e. (Some (fst e), snd e)) us"
      "str_keys (refs s) = Some (map (\<lambda>e. (fst e, JArr (snd e))) us)"
    using str_keys_Some_ex [OF assms(2)] by blast
  define d where "d = map (\<lambda>e. (fst e, JArr (snd e))) us"
  define top where "top = (''refs'', JObj d) # cli_doc s"
  define T where "T = sort_key fst (map (\<lambda>e. (fst e, sort_keys (snd e))) top)"
  define E where "E = sort_key fst (map (\<lambda>e. (fst e, sort_keys (snd e))) d)"
  have dump: "dump s = Inr (JObj T)"
    by (simp add: dump_def refs_doc_def us(2) T_def top_def d_def sort_keys_items_map)
  have dtop: "distinct (map fst top)" by (simp add: top_def cli_doc_def split: option.splits)
  have "dict_get T ''refs'' = dict_get (map (\<lambda>e. (fst e, sort_keys (snd e))) top) ''refs''"
    unfolding T_def using dtop by (intro dict_get_sort_key) (simp add: comp_def)
  also have "\<dots> = Some (JObj E)"
    by (simp add: top_def E_def sort_keys_items_map)
  finally have get: "dict_get T ''refs'' = Some (JObj E)" .
  have dus: "distinct (map fst us)"
  proof -
    have "map fst (refs s) = map Some (map fst us)" by (simp add: us(1))
    with assms(1) have "distinct (map Some (map fst us))" by (simp only:)
    then show ?thesis by (simp only: distinct_map_Some)
  qed
  have setE: "set E = (\<lambda>e. (fst e, JArr (map sort_keys (snd e)))) ` set us"
    by (auto simp: E_def d_def sort_keys_list_map image_iff)
  have distE: "distinct (map fst E)"
    using dus by (simp add: E_def d_def distinct_fst_sort_key comp_def)
  have lenE: "length E = length us" by (simp add: E_def d_def)
  have iter: "\<forall>e \<in> set E. py_iter (snd e) \<noteq> None" using setE by auto
  have noerr: "snd (merge_refs [] E) = None" using iter by (rule merge_refs_no_error)
  define es where
    "es = map (\<lambda>e. (Some (fst e), case py_iter (snd e) of Some xs \<Rightarrow> xs | None \<Rightarrow> [])) E"
  have es: "entries_seen E = es" using entries_seen_complete [OF noerr] by (simp add: es_def)
  have "map fst es = map Some (map fst E)" by (simp add: es_def)
  then have dist_es: "distinct (map fst es)" using distE by (simp only: distinct_map_Some)
  define R where "R = map (\<lambda>e. (fst e, merge_items [] (snd e))) es"
  have ml: "merge_lists [] es = R"
    using merge_lists_fresh [OF dist_es, of "[]"] by (simp add: dict_keys_def R_def)
  have fst_l: "fst (merge_refs [] E) = R" by (simp only: merge_refs_lists es ml)
  have load: "load_json Xrelfo (JObj T) = (Xrelfo\<lparr>refs := R\<rparr>, None)"
    using load_json_refs_member [OF get, of Xrelfo] fst_l noerr by (simp add: Xrelfo_def)
  have ok: "wf_json_list xs \<and> merge_items [] xs = xs" if "(u, xs) \<in> set us" for u xs
    using assms(3) that by (force simp: us(1))
  have inR: "\<exists>u xs. k = Some u \<and> (u, xs) \<in> set us \<and> ys = map sort_keys xs"
    if "(k, ys) \<in> set R" for k ys
  proof -
    have "R = map (\<lambda>e. (Some (fst e),
        merge_items [] (case py_iter (snd e) of Some xs \<Rightarrow> xs | None \<Rightarrow> []))) E"
      by (simp add: R_def es_def)
    then have "(k, ys) \<in> (\<lambda>e. (Some (fst e),
        merge_items [] (case py_iter (snd e) of Some xs \<Rightarrow> xs | None \<Rightarrow> []))) ` set E"
      using that by simp
    then obtain e where e: "e \<in> set E" "k = Some (fst e)"
      "ys = merge_items [] (case py_iter (snd e) of Some xs \<Rightarrow> xs | None \<Rightarrow> [])"
      by blast
    obtain u xs where x: "(u, xs) \<in> set us" "e = (u, JArr (map sort_keys xs))"
      using e(1) setE by auto
    have "merge_items (map sort_keys []) (map sort_keys xs) = map sort_keys (merge_items [] xs)"
      using ok [OF x(1)] by (intro merge_items_sort_keys) (simp_all add: wf_json_list_iff)
    then have "ys = map sort_keys xs" using e(3) x(2) ok [OF x(1)] by simp
    then show ?thesis using e(2) x by auto
  qed
  have lenR: "length R = length (refs s)" by (simp add: R_def es_def lenE us(1))
  have "refs_eq_items R (refs s)"
    unfolding refs_eq_items_iff
  proof (clarify)
    fix k ys assume "(k, ys) \<in> set R"
    then obtain u xs where x: "k = Some u" "(u, xs) \<in> set us" "ys = map sort_keys xs"
      using inR by blast
    have "(Some u, xs) \<in> set (refs s)" using x(2) by (force simp: us(1))
    then have "dict_get (refs s) k = Some xs" using assms(1) x(1) by (simp add: dict_get_SomeI)
    moreover have "py_eq_list ys xs"
      using ok [OF x(2)] x(3) by (simp add: py_eq_list_sort_keys)
    ultimately show "\<exists>xs. dict_get (refs s) k = Some xs \<and> py_eq_list ys xs" by blast
  qed
  then have req: "refs_eq R (refs s)" using lenR by (simp add: refs_eq_def)
  have "snd (load_json Xrelfo (JObj T)) = None
           \<and> refs_eq (refs (fst (load_json Xrelfo (JObj T)))) (refs s)
           \<and> cli (fst (load_json Xrelfo (JObj T))) = None"
    using req by (simp add: load) (simp add: Xrelfo_def)
  then show ?thesis using dump by blast
qed

theorem dump_reload_refs_witness:
  "dump (Xrelfo\<lparr>refs :=
        [(Some ''CCCCC-DDDDD'', [JObj [(''file'', JStr ''b.c''), (''line'', JInt 7), (''func'', JStr ''g'')]]),
         (Some ''AAAAA-BBBBB'', [JObj [(''file'', JStr ''a.c''), (''line'', JInt 3), (''func'', JStr ''f'')]])]\<rparr>)
     = Inr (JObj [(''refs'', JObj
        [(''AAAAA-BBBBB'', JArr [JObj [(''file'', JStr ''a.c''), (''func'', JStr ''f''), (''line'', JInt 3)]]),
         (''CCCCC-DDDDD'', JArr [JObj [(''file'', JStr ''b.c''), (''func'', JStr ''g''), (''line'', JInt 7)]])])])
   \<and> refs_eq
       (refs (fst (load_json Xrelfo (JObj [(''refs'', JObj
        [(''AAAAA-BBBBB'', JArr [JObj [(''file'', JStr ''a.c''), (''func'', JStr ''f''), (''line'', JInt 3)]]),
         (''CCCCC-DDDDD'', JArr [JObj [(''file'', JStr ''b.c''), (''func'', JStr ''g''), (''line'', JInt 7)]])])]))))
       [(Some ''CCCCC-DDDDD'', [JObj [(''file'', JStr ''b.c''), (''line'', JInt 7), (''func'', JStr ''g'')]]),
        (Some ''AAAAA-BBBBB'', [JObj [(''file'', JStr ''a.c''), (''line'', JInt 3), (''func'', JStr ''f'')]])]"
proof -
  let ?r = "[(Some ''CCCCC-DDDDD'', [JObj [(''file'', JStr ''b.c''), (''line'', JInt 7), (''func'', JStr ''g'')]]),
         (Some ''AAAAA-BBBBB'', [JObj [(''file'', JStr ''a.c''), (''line'', JInt 3), (''func'', JStr ''f'')]])]"
  let ?s = "Xrelfo\<lparr>refs := ?r\<rparr>"
  let ?d = "JObj [(''refs'', JObj
        [(''AAAAA-BBBBB'', JArr [JObj [(''file'', JStr ''a.c''), (''func'', JStr ''f''), (''line'', JInt 3)]]),
         (''CCCCC-DDDDD'', JArr [JObj [(''file'', JStr ''b.c''), (''func'', JStr ''g''), (''line'', JInt 7)]])])]"
  have r: "refs ?s = ?r" by simp
  have h1: "distinct (map fst (refs ?s))" by simp
  have h2: "str_keys (refs ?s) \<noteq> None" by simp
  have h3: "\<forall>(k, xs) \<in> set (refs ?s). wf_json_list xs \<and> merge_items [] xs = xs" by simp
  have d: "dump ?s = Inr ?d"
    by code_simp
  obtain d' where "dump ?s = Inr d'" "refs_eq (refs (fst (load_json Xrelfo d'))) (refs ?s)"
    using dump_reload_refs [OF h1 h2 h3] by blast
  then show ?thesis using d r by simp
qed

text \<open>
  C4 as stated fails: a store with a command descriptor is written with its \<open>cli\<close>
  member, and the store read back from that document has no \<open>cli\<close> mapping.
\<close>

theorem dump_reload_cli_counterexample:
  "dump (cmd_to_dict
           \<lparr>ce_xref = \<lparr>o_file = ''vty.c'', o_line = 10, o_func = ''show_version''\<rparr>,
            name = ''show version'', string = ''show version'', doc = ''Show version'',
            attr = 0, dict_nodes = 0\<rparr>
           (snd (new_list Xrelfo)))
     = Inr (JObj [(''cli'', JObj [(''show version'', JObj
               [(''defun'', JObj [(''file'', JStr ''vty.c''), (''func'', JStr ''show_version''),
                                  (''line'', JInt 10)]),
                (''doc'', JStr ''Show version''), (''nodes'', JArr []),
                (''string'', JStr ''show version'')])]),
             (''refs'', JObj [])])
   \<and> cli (fst (load_json Xrelfo
       (JObj [(''cli'', JObj [(''show version'', JObj
               [(''defun'', JObj [(''file'', JStr ''vty.c''), (''func'', JStr ''show_version''),
                                  (''line'', JInt 10)]),
                (''doc'', JStr ''Show version''), (''nodes'', JArr []),
                (''string'', JStr ''show version'')])]),
             (''refs'', JObj [])]))) = None
   \<and> cli (cmd_to_dict
           \<lparr>ce_xref = \<lparr>o_file = ''vty.c'', o_line = 10, o_func = ''show_version''\<rparr>,
            name = ''show version'', string = ''show version'', doc = ''Show version'',
            attr = 0, dict_nodes = 0\<rparr>
           (snd (new_list Xrelfo))) \<noteq> None"
proof -
  let ?s = "cmd_to_dict
           \<lparr>ce_xref = \<lparr>o_file = ''vty.c'', o_line = 10, o_func = ''show_version''\<rparr>,
            name = ''show version'', string = ''show version'', doc = ''Show version'',
            attr = 0, dict_nodes = 0\<rparr>
           (snd (new_list Xrelfo))"
  let ?d = "JObj [(''cli'', JObj [(''show version'', JObj
               [(''defun'', JObj [(''file'', JStr ''vty.c''), (''func'', JStr ''show_version''),
                                  (''line'', JInt 10)]),
                (''doc'', JStr ''Show version''), (''nodes'', JArr []),
                (''string'', JStr ''show version'')])]),
             (''refs'', JObj [])]"
  have a: "dump ?s = Inr ?d" by code_simp
  have b: "cli (fst (load_json Xrelfo ?d)) = None"
    by (simp add: load_json_def Xrelfo_def)
  have c: "cli ?s \<noteq> None" by (simp add: cmd_to_dict_def Let_def)
  show ?thesis using a b c by blast
qed

section \<open>Properties of the by-file view\<close>

lemma py_eq_JStr: "py_eq k (JStr f) \<longleftrightarrow> k = JStr f"
  by (cases k) auto

lemma view_get_JStr: "view_get d (JStr f) = dict_get d (JStr f)"
  by (induction d) (auto simp: py_eq_JStr)

lemma view_append_JStr:
  "view_append d (JStr f) x = dict_set d (JStr f) (get_list d (JStr f) @ [x])"
  by (induction d) (auto simp: py_eq_JStr get_list_def)

lemma dict_del_filter:
  "distinct (map fst d) \<Longrightarrow> dict_del d k = filter (\<lambda>kv. fst kv \<noteq> k) d"
proof (induction d)
  case Nil
  show ?case by simp
next
  case (Cons a d)
  show ?case
  proof (cases "fst a = k")
    case True
    then have "k \<notin> fst ` set d" using Cons.prems by simp
    then have "\<forall>kv \<in> set d. fst kv \<noteq> k" by force
    then have "filter (\<lambda>kv. fst kv \<noteq> k) d = d" by (simp add: filter_id_conv)
    then show ?thesis using True by (cases a) simp
  next
    case False
    then show ?thesis using Cons by (cases a) simp
  qed
qed

lemma dict_get_filter:
  "dict_get (filter (\<lambda>kv. fst kv \<noteq> k) d) k' = (if k' = k then None else dict_get d k')"
  by (induction d) auto

lemma distinct_dict_set: "distinct (map fst d) \<Longrightarrow> distinct (map fst (dict_set d k v))"
proof (induction d)
  case Nil
  show ?case by simp
next
  case (Cons a d)
  have "fst ` set (dict_set d k v) = insert k (fst ` set d)"
    using dict_keys_set [of d k v] by (simp add: dict_keys_def)
  then show ?case using Cons by (cases a) auto
qed

lemma occ_ok_iff:
  "occ_ok loc \<longleftrightarrow> (\<exists>d f i. loc = JObj d \<and> dict_get d ''file'' = Some (JStr f)
                      \<and> dict_get d ''line'' = Some (JInt i))"
proof (cases loc)
  case (JObj d)
  show ?thesis
  proof (cases "dict_get d ''file''")
    case None
    then show ?thesis by (simp add: JObj occ_ok_def file_of_def)
  next
    case fv: (Some fv)
    show ?thesis
    proof (cases "dict_get d ''line''")
      case None
      then show ?thesis
        by (cases fv) (simp_all add: JObj fv occ_ok_def file_of_def line_of_def)
    next
      case lv: (Some lv)
      show ?thesis
        by (cases fv; cases lv) (simp_all add: JObj fv lv occ_ok_def file_of_def line_of_def)
    qed
  qed
qed (simp_all add: occ_ok_def file_of_def)

lemma occ_ok_cases:
  assumes "occ_ok loc"
  obtains d f i where "loc = JObj d" "dict_get d ''file'' = Some (JStr f)"
    "dict_get d ''line'' = Some (JInt i)"
  using assms by (auto simp: occ_ok_iff)

lemma add_loc_ok:
  assumes "occ_ok loc" "wf_json loc"
  shows "\<exists>f. file_of loc = Some (JStr f)
           \<and> add_loc out loc
               = Inr (dict_set out (JStr f) (get_list out (JStr f) @ [strip_file loc]))"
proof -
  obtain d f i where d: "loc = JObj d" "dict_get d ''file'' = Some (JStr f)"
    using assms(1) by (elim occ_ok_cases)
  have "distinct (map fst d)" using assms(2) d(1) by simp
  then have "dict_del d ''file'' = filter (\<lambda>kv. fst kv \<noteq> ''file'') d"
    by (rule dict_del_filter)
  then show ?thesis
    using d by (simp add: add_loc_def file_of_def strip_file_def view_append_JStr)
qed

lemma field_of_strip:
  "occ_ok loc \<Longrightarrow> field_of key (strip_file loc)
     = (if key = ''file'' then None else field_of key loc)"
  by (elim occ_ok_cases) (simp add: field_of_def strip_file_def dict_get_filter)

lemma line_of_strip: "occ_ok loc \<Longrightarrow> line_of (strip_file loc) = line_of loc"
  by (elim occ_ok_cases) (simp add: line_of_def strip_file_def dict_get_filter)

lemma line_int_strip: "occ_ok loc \<Longrightarrow> line_int (strip_file loc) = line_int loc"
  by (simp add: line_int_def line_of_strip)

lemma line_ok_strip: "occ_ok loc \<Longrightarrow> line_ok (strip_file loc)"
  by (frule line_of_strip, elim occ_ok_cases) (simp add: line_ok_def line_of_def)

lemma view_inv_set:
  assumes "view_inv out" "\<forall>x \<in> set xs. line_ok x"
  shows "view_inv (dict_set out (JStr f) xs)"
proof -
  have "(k, ys) \<in> set (dict_set out (JStr f) xs) \<Longrightarrow> (k, ys) \<in> set out \<or> (k, ys) = (JStr f, xs)" for k ys
    by (induction out) (auto split: if_splits)
  then show ?thesis
    using assms unfolding view_inv_def by (fastforce simp: distinct_dict_set)
qed

lemma view_inv_get_list: "view_inv out \<Longrightarrow> \<forall>x \<in> set (get_list out k). line_ok x"
  unfolding view_inv_def get_list_def
  by (auto simp: dict_get_map_of split: option.splits dest!: map_of_SomeD)

lemma mset_concat_dict_set_append:
  "mset (concat (map snd (dict_set d k (get_list d k @ [x]))))
     = mset (concat (map snd d)) + {#x#}"
  by (induction d) (auto simp: get_list_def)

lemma add_locs_ok:
  assumes "\<forall>loc \<in> set locs. occ_ok loc \<and> wf_json loc" "view_inv out"
  shows "\<exists>out'. add_locs out locs = Inr out' \<and> view_inv out'
           \<and> (\<forall>f. get_list out' (JStr f) = get_list out (JStr f) @ bucket f locs)
           \<and> dict_keys out' = dict_keys out \<union> {k. \<exists>loc \<in> set locs. file_of loc = Some k}
           \<and> mset (concat (map snd out')) = mset (concat (map snd out)) + mset (map strip_file locs)"
  using assms
proof (induction locs arbitrary: out)
  case Nil
  show ?case using Nil by (simp add: bucket_def)
next
  case (Cons loc locs)
  have ok: "occ_ok loc" and wf: "wf_json loc" using Cons.prems by simp_all
  obtain f where f: "file_of loc = Some (JStr f)"
    and step: "add_loc out loc = Inr (dict_set out (JStr f) (get_list out (JStr f) @ [strip_file loc]))"
    using add_loc_ok [OF ok wf] by blast
  let ?o1 = "dict_set out (JStr f) (get_list out (JStr f) @ [strip_file loc])"
  have inv1: "view_inv ?o1"
    using Cons.prems(2) view_inv_get_list [OF Cons.prems(2)] line_ok_strip [OF ok]
    by (intro view_inv_set) auto
  obtain out' where o: "add_locs ?o1 locs = Inr out'" "view_inv out'"
    "\<forall>g. get_list out' (JStr g) = get_list ?o1 (JStr g) @ bucket g locs"
    "dict_keys out' = dict_keys ?o1 \<union> {k. \<exists>loc \<in> set locs. file_of loc = Some k}"
    "mset (concat (map snd out')) = mset (concat (map snd ?o1)) + mset (map strip_file locs)"
    using Cons.IH [OF _ inv1] Cons.prems(1) by auto
  have m1: "mset (concat (map snd ?o1)) = mset (concat (map snd out)) + {#strip_file loc#}"
    by (rule mset_concat_dict_set_append)
  have "add_locs out (loc # locs) = Inr out'" using step o(1) by simp
  moreover have "\<forall>g. get_list out' (JStr g) = get_list out (JStr g) @ bucket g (loc # locs)"
    using o(3) f by (auto simp: get_list_set bucket_def)
  moreover have "dict_keys out' = dict_keys out \<union> {k. \<exists>l \<in> set (loc # locs). file_of l = Some k}"
    using o(4) f by (auto simp: dict_keys_set)
  moreover have "mset (concat (map snd out')) = mset (concat (map snd out)) + mset (map strip_file (loc # locs))"
    using o(5) m1 by simp
  ultimately show ?case using o(2) by blast
qed


lemma add_refs_ok:
  assumes "\<forall>loc \<in> set (occurrences r). occ_ok loc \<and> wf_json loc" "view_inv out"
  shows "\<exists>out'. add_refs out r = Inr out' \<and> view_inv out'
           \<and> (\<forall>f. get_list out' (JStr f) = get_list out (JStr f) @ bucket f (occurrences r))
           \<and> dict_keys out' = dict_keys out \<union> {k. \<exists>loc \<in> set (occurrences r). file_of loc = Some k}
           \<and> mset (concat (map snd out'))
               = mset (concat (map snd out)) + mset (map strip_file (occurrences r))"
  using assms
proof (induction r arbitrary: out)
  case Nil
  show ?case using Nil by (simp add: bucket_def occurrences_def)
next
  case (Cons e r)
  obtain u locs where e: "e = (u, locs)" by (cases e)
  have occ: "occurrences (e # r) = locs @ occurrences r" by (simp add: e occurrences_def)
  have "\<forall>loc \<in> set locs. occ_ok loc \<and> wf_json loc" using Cons.prems(1) occ by simp
  then obtain o1 where o1: "add_locs out locs = Inr o1" "view_inv o1"
    "\<forall>f. get_list o1 (JStr f) = get_list out (JStr f) @ bucket f locs"
    "dict_keys o1 = dict_keys out \<union> {k. \<exists>loc \<in> set locs. file_of loc = Some k}"
    "mset (concat (map snd o1)) = mset (concat (map snd out)) + mset (map strip_file locs)"
    using add_locs_ok [OF _ Cons.prems(2)] by blast
  have "\<forall>loc \<in> set (occurrences r). occ_ok loc \<and> wf_json loc"
    using Cons.prems(1) occ by simp
  then obtain out' where o: "add_refs o1 r = Inr out'" "view_inv out'"
    "\<forall>f. get_list out' (JStr f) = get_list o1 (JStr f) @ bucket f (occurrences r)"
    "dict_keys out' = dict_keys o1 \<union> {k. \<exists>loc \<in> set (occurrences r). file_of loc = Some k}"
    "mset (concat (map snd out')) = mset (concat (map snd o1)) + mset (map strip_file (occurrences r))"
    using Cons.IH [OF _ o1(2)] by blast
  have "add_refs out (e # r) = Inr out'" using o1(1) o(1) by (simp add: e)
  moreover have "\<forall>f. get_list out' (JStr f) = get_list out (JStr f) @ bucket f (occurrences (e # r))"
    using o(3) o1(3) by (simp add: occ bucket_def)
  moreover have "dict_keys out' = dict_keys out \<union> {k. \<exists>loc \<in> set (occurrences (e # r)). file_of loc = Some k}"
    using o(4) o1(4) by (auto simp: occ)
  moreover have "mset (concat (map snd out'))
               = mset (concat (map snd out)) + mset (map strip_file (occurrences (e # r)))"
    using o(5) o1(5) by (simp add: occ)
  ultimately show ?case using o(2) by blast
qed

lemma sorted_by_line_ok:
  assumes "\<forall>x \<in> set xs. line_ok x"
  shows "sorted_by_line xs = Inr (sort_key line_int xs)"
proof -
  have a: "\<forall>x \<in> set xs. line_of x \<noteq> None \<and> Option.bind (line_of x) int_of \<noteq> None"
    using assms by (auto simp: line_ok_def)
  have b: "length xs < 2 \<Longrightarrow> sort_key line_int xs = xs"
    by (cases xs) (auto simp: less_Suc_eq numeral_2_eq_2)
  show ?thesis using a b by (auto simp: sorted_by_line_def)
qed

lemma sort_view_ok:
  assumes "\<forall>(k, xs) \<in> set d. \<forall>x \<in> set xs. line_ok x"
  shows "sort_view d = Inr (map (\<lambda>e. (fst e, sort_key line_int (snd e))) d)"
  using assms
proof (induction d)
  case Nil
  show ?case by simp
next
  case (Cons e d)
  obtain k xs where e: "e = (k, xs)" by (cases e)
  have "sorted_by_line xs = Inr (sort_key line_int xs)"
    using Cons.prems e by (intro sorted_by_line_ok) auto
  then show ?case using Cons e by simp
qed

lemma mset_concat_sorted:
  "mset (concat (map snd (map (\<lambda>e. (fst e, sort_key f (snd e))) d))) = mset (concat (map snd d))"
  by (induction d) simp_all

lemma filter_bucket:
  assumes "\<forall>loc \<in> set locs. occ_ok loc"
  shows "filter (\<lambda>x. line_int x = n) (bucket f locs)
           = map strip_file (filter (\<lambda>loc. file_of loc = Some (JStr f) \<and> line_int loc = n) locs)"
  using assms by (induction locs) (auto simp: bucket_def line_int_strip)

text \<open>
  C6. For a store whose occurrences are dicts (with distinct keys, as Python has them)
  with a string under \<open>file\<close> and an integer under \<open>line\<close>, the view is built without an
  exception; it holds every occurrence of \<open>refs\<close> exactly once, under the key that was its
  file; every entry of the view is an occurrence of that file with the \<open>file\<close> field
  gone and every other field as it was; each list is in ascending order of line, and the
  entries of one line are in the order in which the store is read.
\<close>

theorem by_file_view:
  assumes "\<forall>loc \<in> set (occurrences r). occ_ok loc \<and> wf_json loc"
  shows "\<exists>v. outbyfile r = Inr v
     \<and> mset (concat (map snd v)) = mset (map strip_file (occurrences r))
     \<and> distinct (map fst v)
     \<and> (\<forall>loc \<in> set (occurrences r). \<exists>k ys. file_of loc = Some k \<and> (k, ys) \<in> set v
            \<and> strip_file loc \<in> set ys)
     \<and> (\<forall>(k, ys) \<in> set v. \<exists>f. k = JStr f
            \<and> mset ys = mset (map strip_file
                 (filter (\<lambda>loc. file_of loc = Some (JStr f)) (occurrences r)))
            \<and> (\<forall>y \<in> set ys. \<exists>loc \<in> set (occurrences r). file_of loc = Some k
                  \<and> (\<forall>key. field_of key y
                              = (if key = ''file'' then None else field_of key loc)))
            \<and> sorted (map line_int ys)
            \<and> (\<forall>n. filter (\<lambda>x. line_int x = n) ys
                  = map strip_file (filter (\<lambda>loc. file_of loc = Some (JStr f) \<and> line_int loc = n)
                      (occurrences r))))"
proof -
  have okall: "\<forall>loc \<in> set (occurrences r). occ_ok loc" using assms by simp
  have inv0: "view_inv []" by (simp add: view_inv_def)
  obtain out where o: "add_refs [] r = Inr out" "view_inv out"
    "\<forall>f. get_list out (JStr f) = bucket f (occurrences r)"
    "dict_keys out = {k. \<exists>loc \<in> set (occurrences r). file_of loc = Some k}"
    "mset (concat (map snd out)) = mset (map strip_file (occurrences r))"
    using add_refs_ok [OF assms inv0] by (auto simp: get_list_def dict_keys_def)
  let ?v = "map (\<lambda>e. (fst e, sort_key line_int (snd e))) out"
  have sv: "sort_view out = Inr ?v"
    using o(2) by (intro sort_view_ok) (auto simp: view_inv_def)
  have res: "outbyfile r = Inr ?v" using o(1) sv by (simp add: outbyfile_def)
  have total: "mset (concat (map snd ?v)) = mset (map strip_file (occurrences r))"
    using o(5) by (simp only: mset_concat_sorted)
  have dist: "distinct (map fst ?v)" using o(2) by (simp add: view_inv_def comp_def)
  have lists: "xs = bucket f (occurrences r)" if "(JStr f, xs) \<in> set out" for f xs
  proof -
    have "dict_get out (JStr f) = Some xs"
      using that o(2) by (simp add: view_inv_def dict_get_map_of)
    then have "get_list out (JStr f) = xs" by (simp add: get_list_def)
    then show ?thesis using o(3) by simp
  qed
  have cover: "\<forall>loc \<in> set (occurrences r). \<exists>k ys. file_of loc = Some k \<and> (k, ys) \<in> set ?v
            \<and> strip_file loc \<in> set ys"
  proof
    fix loc assume l: "loc \<in> set (occurrences r)"
    then have "occ_ok loc" using okall by simp
    then obtain f where f: "file_of loc = Some (JStr f)"
      by (elim occ_ok_cases) (simp add: file_of_def)
    then have "JStr f \<in> dict_keys out" using o(4) l by auto
    then obtain xs where xs: "(JStr f, xs) \<in> set out" by (auto simp: dict_keys_def)
    then have "xs = bucket f (occurrences r)" by (rule lists)
    then have "strip_file loc \<in> set xs" using l f by (simp add: bucket_def)
    moreover have "(JStr f, sort_key line_int xs) \<in> set ?v" using xs by force
    ultimately show "\<exists>k ys. file_of loc = Some k \<and> (k, ys) \<in> set ?v \<and> strip_file loc \<in> set ys"
      using f by (intro exI [of _ "JStr f"] exI [of _ "sort_key line_int xs"]) simp
  qed
  have each: "\<forall>(k, ys) \<in> set ?v. \<exists>f. k = JStr f
            \<and> mset ys = mset (map strip_file
                 (filter (\<lambda>loc. file_of loc = Some (JStr f)) (occurrences r)))
            \<and> (\<forall>y \<in> set ys. \<exists>loc \<in> set (occurrences r). file_of loc = Some k
                  \<and> (\<forall>key. field_of key y
                              = (if key = ''file'' then None else field_of key loc)))
            \<and> sorted (map line_int ys)
            \<and> (\<forall>n. filter (\<lambda>x. line_int x = n) ys
                  = map strip_file (filter (\<lambda>loc. file_of loc = Some (JStr f) \<and> line_int loc = n)
                      (occurrences r)))"
  proof (clarify)
    fix k ys assume "(k, ys) \<in> set ?v"
    then obtain xs where xs: "(k, xs) \<in> set out" and ys: "ys = sort_key line_int xs" by auto
    obtain f where k: "k = JStr f" using xs o(2) by (auto simp: view_inv_def)
    have x: "xs = bucket f (occurrences r)" using xs k lists by simp
    have "mset ys = mset (map strip_file
                 (filter (\<lambda>loc. file_of loc = Some (JStr f)) (occurrences r)))"
      by (simp add: ys x bucket_def)
    moreover have "\<forall>y \<in> set ys. \<exists>loc \<in> set (occurrences r). file_of loc = Some k
                  \<and> (\<forall>key. field_of key y
                              = (if key = ''file'' then None else field_of key loc))"
    proof
      fix y assume "y \<in> set ys"
      then have "y \<in> set (bucket f (occurrences r))" by (simp add: ys x)
      then obtain loc where loc: "loc \<in> set (occurrences r)" "file_of loc = Some (JStr f)"
          "y = strip_file loc"
        by (auto simp: bucket_def)
      have "occ_ok loc" using okall loc(1) by simp
      then have "\<forall>key. field_of key y = (if key = ''file'' then None else field_of key loc)"
        by (simp add: loc(3) field_of_strip)
      then show "\<exists>loc \<in> set (occurrences r). file_of loc = Some k
                  \<and> (\<forall>key. field_of key y
                              = (if key = ''file'' then None else field_of key loc))"
        using loc(1,2) k by blast
    qed
    moreover have "sorted (map line_int ys)" by (simp add: ys sorted_sort_key)
    moreover have "\<forall>n. filter (\<lambda>x. line_int x = n) ys
                  = map strip_file (filter (\<lambda>loc. file_of loc = Some (JStr f) \<and> line_int loc = n)
                      (occurrences r))"
      by (simp add: ys sort_key_stable x filter_bucket [OF okall])
    ultimately show "\<exists>f. k = JStr f
            \<and> mset ys = mset (map strip_file
                 (filter (\<lambda>loc. file_of loc = Some (JStr f)) (occurrences r)))
            \<and> (\<forall>y \<in> set ys. \<exists>loc \<in> set (occurrences r). file_of loc = Some k
                  \<and> (\<forall>key. field_of key y
                              = (if key = ''file'' then None else field_of key loc)))
            \<and> sorted (map line_int ys)
            \<and> (\<forall>n. filter (\<lambda>x. line_int x = n) ys
                  = map strip_file (filter (\<lambda>loc. file_of loc = Some (JStr f) \<and> line_int loc = n)
                      (occurrences r)))"
      using k by blast
  qed
  show ?thesis using res total dist cover each by blast
qed

theorem by_file_view_witness:
  "outbyfile
       [(Some ''AAAAA-BBBBB'', [JObj [(''line'', JInt 30), (''file'', JStr ''a.c''), (''func'', JStr ''f'')],
                                JObj [(''file'', JStr ''b.c''), (''line'', JInt 5), (''func'', JStr ''h'')]]),
        (Some ''CCCCC-DDDDD'', [JObj [(''file'', JStr ''a.c''), (''line'', JInt 10), (''func'', JStr ''e'')],
                                JObj [(''file'', JStr ''a.c''), (''line'', JInt 30), (''func'', JStr ''g'')]])]
     = Inr [(JStr ''a.c'', [JObj [(''line'', JInt 10), (''func'', JStr ''e'')],
                            JObj [(''line'', JInt 30), (''func'', JStr ''f'')],
                            JObj [(''line'', JInt 30), (''func'', JStr ''g'')]]),
            (JStr ''b.c'', [JObj [(''line'', JInt 5), (''func'', JStr ''h'')]])]"
proof -
  let ?r = "[(Some ''AAAAA-BBBBB'', [JObj [(''line'', JInt 30), (''file'', JStr ''a.c''), (''func'', JStr ''f'')],
                                JObj [(''file'', JStr ''b.c''), (''line'', JInt 5), (''func'', JStr ''h'')]]),
        (Some ''CCCCC-DDDDD'', [JObj [(''file'', JStr ''a.c''), (''line'', JInt 10), (''func'', JStr ''e'')],
                                JObj [(''file'', JStr ''a.c''), (''line'', JInt 30), (''func'', JStr ''g'')]])]"
  have h: "\<forall>loc \<in> set (occurrences ?r). occ_ok loc \<and> wf_json loc"
    by (simp add: occurrences_def occ_ok_def file_of_def line_of_def)
  have e: "outbyfile ?r
     = Inr [(JStr ''a.c'', [JObj [(''line'', JInt 10), (''func'', JStr ''e'')],
                            JObj [(''line'', JInt 30), (''func'', JStr ''f'')],
                            JObj [(''line'', JInt 30), (''func'', JStr ''g'')]]),
            (JStr ''b.c'', [JObj [(''line'', JInt 5), (''func'', JStr ''h'')]])]"
    by (simp add: outbyfile_def add_loc_def sorted_by_line_def line_of_def line_int_def)
  show ?thesis using by_file_view [OF h] h e by blast
qed

section \<open>Order of command contributions\<close>

text \<open>
  A definition followed by an installation gives one descriptor with \<open>defun\<close> and one
  node: the descriptor holds the list of the \<open>CmdElement\<close>, and the installation appends
  to it.
\<close>

lemma defun_then_install_nodes:
  "(let (c, s0) = CmdElement \<lparr>o_file = ''vty.c'', o_line = 10, o_func = ''show_version''\<rparr>
                    ''show version'' ''show version'' ''Show version'' 0 Xrelfo;
        i = \<lparr>ie_xref = \<lparr>o_file = ''vty.c'', o_line = 90, o_func = ''vty_init''\<rparr>,
             cmd_element_name = ''show version'', node_type = 3\<rparr>;
        s = install_to_dict i (cmd_to_dict c s0)
    in map (\<lambda>nd. (fst nd, desc_json (heap s) (snd nd))) (get_cli s))
   = [(''show version'', JObj
        [(''string'', JStr ''show version''), (''doc'', JStr ''Show version''),
         (''nodes'', JArr [JObj [(''node'', JInt 3),
            (''install'', JObj [(''file'', JStr ''vty.c''), (''line'', JInt 90), (''func'', JStr ''vty_init'')])]]),
         (''defun'', JObj [(''file'', JStr ''vty.c''), (''line'', JInt 10), (''func'', JStr ''show_version'')])])]"
  by (simp add: CmdElement_def new_list_def Xrelfo_def cmd_to_dict_def install_to_dict_def
        get_cli_def get_desc_def empty_desc_def cmd_attrs_get_def desc_json_def opt_item_def
        origin_dict_def Let_def)

text \<open>
  C5. The two contributions in the other order: the installation makes the descriptor
  with a list of one node, and the definition then puts its own, empty list under
  \<open>nodes\<close>. The descriptor ends with \<open>defun\<close> and no node.
\<close>

theorem install_then_defun_nodes:
  "(let (c, s0) = CmdElement \<lparr>o_file = ''vty.c'', o_line = 10, o_func = ''show_version''\<rparr>
                    ''show version'' ''show version'' ''Show version'' 0 Xrelfo;
        i = \<lparr>ie_xref = \<lparr>o_file = ''vty.c'', o_line = 90, o_func = ''vty_init''\<rparr>,
             cmd_element_name = ''show version'', node_type = 3\<rparr>;
        s = cmd_to_dict c (install_to_dict i s0)
    in map (\<lambda>nd. (fst nd, desc_json (heap s) (snd nd))) (get_cli s))
   = [(''show version'', JObj
        [(''string'', JStr ''show version''), (''doc'', JStr ''Show version''),
         (''nodes'', JArr []),
         (''defun'', JObj [(''file'', JStr ''vty.c''), (''line'', JInt 10), (''func'', JStr ''show_version'')])])]"
  by (simp add: CmdElement_def new_list_def Xrelfo_def cmd_to_dict_def install_to_dict_def
        get_cli_def get_desc_def empty_desc_def cmd_attrs_get_def desc_json_def opt_item_def
        origin_dict_def Let_def)

section \<open>Log-message descriptors\<close>

lemma and7_mod: "(p::int) AND 7 = p mod 8"
  using take_bit_eq_mask[of 3 p] take_bit_eq_mod[of 3 p] by (simp add: mask_eq_exp_minus_1)

lemma and16_bit: "((p::int) AND 0x10 \<noteq> 0) = bit p 4"
  using and_exp_eq_0_iff_not_bit[of p 4] by simp

lemma and32_bit: "((p::int) AND 0x20 \<noteq> 0) = bit p 5"
  using and_exp_eq_0_iff_not_bit[of p 5] by simp

text \<open>
  C9. In the descriptor of a log message, \<open>priority\<close> is the low three bits of the packed
  priority field; \<open>flags\<close> holds \<open>errno\<close> exactly when bit 0x10 is set and \<open>getaddrinfo\<close>
  exactly when bit 0x20 is set (and the key is missing when neither is); \<open>ec\<close> is present
  exactly when the error code is not zero. A packed priority of 0x16 gives priority 6
  and the flags \<open>[errno]\<close>.
\<close>

theorem logmsg_descriptor:
  "dict_get (logmsg_jsobj m) ''priority'' = Some (JInt (priority m mod 8))
   \<and> dict_get (logmsg_jsobj m) ''flags'' =
       (if bit (priority m) 4 \<or> bit (priority m) 5
        then Some (JArr ((if bit (priority m) 4 then [JStr ''errno''] else [])
                       @ (if bit (priority m) 5 then [JStr ''getaddrinfo''] else [])))
        else None)
   \<and> dict_get (logmsg_jsobj m) ''ec'' = (if ec m = 0 then None else Some (JInt (ec m)))
   \<and> (priority m = 0x16 \<longrightarrow>
        dict_get (logmsg_jsobj m) ''priority'' = Some (JInt 6)
        \<and> dict_get (logmsg_jsobj m) ''flags'' = Some (JArr [JStr ''errno'']))"
proof -
  have p: "dict_get (logmsg_jsobj m) ''priority'' = Some (JInt (priority m mod 8))"
    by (simp add: logmsg_jsobj_def origin_dict_def append_flag_def Let_def and7_mod)
  have f: "dict_get (logmsg_jsobj m) ''flags'' =
       (if bit (priority m) 4 \<or> bit (priority m) 5
        then Some (JArr ((if bit (priority m) 4 then [JStr ''errno''] else [])
                       @ (if bit (priority m) 5 then [JStr ''getaddrinfo''] else [])))
        else None)"
    by (simp add: logmsg_jsobj_def origin_dict_def append_flag_def Let_def and16_bit and32_bit)
  have e: "dict_get (logmsg_jsobj m) ''ec'' = (if ec m = 0 then None else Some (JInt (ec m)))"
    by (simp add: logmsg_jsobj_def origin_dict_def append_flag_def Let_def)
  have b4: "bit (0x16::int) 4" by (simp add: bit_iff_odd)
  have b5: "\<not> bit (0x16::int) 5" by (simp add: bit_iff_odd)
  show ?thesis using p f e b4 b5 by simp
qed

theorem logmsg_descriptor_witness:
  "dict_get (logmsg_jsobj
      \<lparr>lm_xref = \<lparr>o_file = ''lib/zebra.c'', o_line = 10, o_func = ''f''\<rparr>, lm_xrefdata = None,
       priority = 0x16, ec = 0, fmtstring = ''hello''\<rparr>) ''priority'' = Some (JInt 6)
   \<and> dict_get (logmsg_jsobj
      \<lparr>lm_xref = \<lparr>o_file = ''lib/zebra.c'', o_line = 10, o_func = ''f''\<rparr>, lm_xrefdata = None,
       priority = 0x16, ec = 0, fmtstring = ''hello''\<rparr>) ''flags'' = Some (JArr [JStr ''errno''])
   \<and> dict_get (logmsg_jsobj
      \<lparr>lm_xref = \<lparr>o_file = ''lib/zebra.c'', o_line = 10, o_func = ''f''\<rparr>, lm_xrefdata = None,
       priority = 0x16, ec = 0, fmtstring = ''hello''\<rparr>) ''ec'' = None"
  using logmsg_descriptor [of
      "\<lparr>lm_xref = \<lparr>o_file = ''lib/zebra.c'', o_line = 10, o_func = ''f''\<rparr>, lm_xrefdata = None,
       priority = 0x16, ec = 0, fmtstring = ''hello''\<rparr>"]
  by simp

section \<open>Identity of a detail record\<close>

text \<open>
  C8. The identity is absent exactly when the detail record has no hash input; otherwise
  it depends only on the owner's file, the hash input and the two 32-bit integers: two
  detail records that agree on these have the same identity, whatever their address and
  the other fields.
\<close>

theorem uid_identity:
  "(uid uidhash d = None \<longleftrightarrow> hashstr d = None)
   \<and> (o_file (xref d) = o_file (xref d') \<and> hashstr d = hashstr d'
        \<and> hashu32_0 d = hashu32_0 d' \<and> hashu32_1 d = hashu32_1 d'
      \<longrightarrow> uid uidhash d = uid uidhash d')"
  by (simp add: uid_def split: option.splits)

theorem uid_identity_witness:
  "uid (\<lambda>f h a b. f @ h)
      \<lparr>xref = \<lparr>o_file = ''a.c'', o_line = 1, o_func = ''f''\<rparr>, hashstr = Some ''msg'',
       hashu32_0 = 7, hashu32_1 = 9, stored_uid = [], addr = 4096\<rparr>
   = uid (\<lambda>f h a b. f @ h)
      \<lparr>xref = \<lparr>o_file = ''a.c'', o_line = 2, o_func = ''g''\<rparr>, hashstr = Some ''msg'',
       hashu32_0 = 7, hashu32_1 = 9, stored_uid = [], addr = 8192\<rparr>
   \<and> uid (\<lambda>f h a b. f @ h)
      \<lparr>xref = \<lparr>o_file = ''a.c'', o_line = 1, o_func = ''f''\<rparr>, hashstr = Some ''msg'',
       hashu32_0 = 7, hashu32_1 = 9, stored_uid = [], addr = 4096\<rparr> \<noteq> None"
  using uid_identity [of "\<lambda>f h a b. f @ h"
      "\<lparr>xref = \<lparr>o_file = ''a.c'', o_line = 1, o_func = ''f''\<rparr>, hashstr = Some ''msg'',
       hashu32_0 = 7, hashu32_1 = 9, stored_uid = [], addr = 4096\<rparr>"
      "\<lparr>xref = \<lparr>o_file = ''a.c'', o_line = 2, o_func = ''g''\<rparr>, hashstr = Some ''msg'',
       hashu32_0 = 7, hashu32_1 = 9, stored_uid = [], addr = 8192\<rparr>"]
  by (simp add: uid_def)

section \<open>Discovery of the pointer table\<close>

lemma length_le_bytes: "length (le_bytes n v) = n"
  by (induction n arbitrary: v) simp_all

lemma le_uint_le_bytes: "le_uint (le_bytes n v) = v mod 256 ^ n"
proof (induction n arbitrary: v)
  case 0
  show ?case by simp
next
  case (Suc n)
  have "uint (word_of_int v :: 8 word) = v mod 256"
    by (simp add: uint_word_of_int take_bit_eq_mod)
  then have "le_uint (le_bytes (Suc n) v) = v mod 256 + 256 * ((v div 256) mod 256 ^ n)"
    using Suc.IH by simp
  also have "\<dots> = v mod 256 ^ Suc n"
    using zmod_zmult2_eq[of "256 ^ n" v 256] by simp
  finally show ?case .
qed

lemma length_encode_uint: "length (encode_uint big w v) = w"
  by (simp add: encode_uint_def length_le_bytes)

lemma unpack_encode:
  assumes "0 \<le> v" "v < 256 ^ w"
  shows "unpack_uint big (encode_uint big w v) = v"
  using assms by (simp add: unpack_uint_def encode_uint_def le_uint_le_bytes)

lemma unpack2_encode:
  assumes "0 \<le> s" "s < 256 ^ w" "0 \<le> t" "t < 256 ^ w"
  shows "unpack2 big w (encode_uint big w s @ encode_uint big w t) = Inr (s, t)"
  using assms by (simp add: unpack2_def length_encode_uint unpack_encode)

text \<open>
  C7. \<open>load_elf\<close> first asks for the note \<open>FRRouting\<close>/\<open>XREF\<close>. When it is there and holds
  two integers \<open>s\<close> and \<open>t\<close> of the word width \<open>w\<close> of the file (8 bytes when the class
  is 64, 4 otherwise) in the byte order of the file, the pointers are read from the note's
  start plus \<open>s\<close> up to the note's start plus \<open>t\<close> plus \<open>w\<close>. Without the note,
  the section \<open>xref_array\<close> is read; without both, decoding fails.
\<close>

theorem pointer_table_discovery:
  fixes e :: "'sec elffile"
  defines "w \<equiv> (if elfclass e = 64 then 8 else 4)"
  shows "(\<forall>n s t. find_note e ''FRRouting'' ''XREF'' = Some n
            \<and> getitem e n = encode_uint (bigendian e) w s @ encode_uint (bigendian e) w t
            \<and> 0 \<le> s \<and> s < 256 ^ w \<and> 0 \<le> t \<and> t < 256 ^ w
          \<longrightarrow> locate_ptrs e = Inr (Slice (start n + s) (start n + t + int w)))
       \<and> (\<forall>sec. find_note e ''FRRouting'' ''XREF'' = None
            \<and> get_section e ''xref_array'' = Some sec
          \<longrightarrow> locate_ptrs e = Inr (Section sec))
       \<and> (find_note e ''FRRouting'' ''XREF'' = None \<and> get_section e ''xref_array'' = None
          \<longrightarrow> locate_ptrs e = Inl ValueError)"
proof (intro conjI allI impI)
  fix n s t
  assume a: "find_note e ''FRRouting'' ''XREF'' = Some n
            \<and> getitem e n = encode_uint (bigendian e) w s @ encode_uint (bigendian e) w t
            \<and> 0 \<le> s \<and> s < 256 ^ w \<and> 0 \<le> t \<and> t < 256 ^ w"
  show "locate_ptrs e = Inr (Slice (start n + s) (start n + t + int w))"
  proof (cases "elfclass e = 64")
    case True
    then have w8: "w = 8" by (simp add: w_def)
    have "unpack2 (bigendian e) 8 (getitem e n) = Inr (s, t)"
      using a unpack2_encode[of s 8 t "bigendian e"] by (simp add: w8)
    then show ?thesis using a True by (simp add: locate_ptrs_def w8)
  next
    case False
    then have w4: "w = 4" by (simp add: w_def)
    have "unpack2 (bigendian e) 4 (getitem e n) = Inr (s, t)"
      using a unpack2_encode[of s 4 t "bigendian e"] by (simp add: w4)
    then show ?thesis using a False by (simp add: locate_ptrs_def w4)
  qed
next
  fix sec
  assume "find_note e ''FRRouting'' ''XREF'' = None \<and> get_section e ''xref_array'' = Some sec"
  then show "locate_ptrs e = Inr (Section sec)" by (simp add: locate_ptrs_def)
next
  assume "find_note e ''FRRouting'' ''XREF'' = None \<and> get_section e ''xref_array'' = None"
  then show "locate_ptrs e = Inl ValueError" by (simp add: locate_ptrs_def)
qed

theorem pointer_table_discovery_witness:
  "locate_ptrs
     \<lparr>bigendian = False, elfclass = 64,
      find_note = (\<lambda>a b. if a = ''FRRouting'' \<and> b = ''XREF'' then Some \<lparr>start = 4096\<rparr> else None),
      getitem = (\<lambda>n. [16, 0, 0, 0, 0, 0, 0, 0, 32, 1, 0, 0, 0, 0, 0, 0]),
      get_section = (\<lambda>n. None :: nat option)\<rparr> = Inr (Slice 4112 4392)
   \<and> locate_ptrs
     \<lparr>bigendian = False, elfclass = 64, find_note = (\<lambda>a b. None),
      getitem = (\<lambda>n. []),
      get_section = (\<lambda>n. if n = ''xref_array'' then Some (5::nat) else None)\<rparr> = Inr (Section 5)
   \<and> locate_ptrs
     \<lparr>bigendian = False, elfclass = 64, find_note = (\<lambda>a b. None),
      getitem = (\<lambda>n. []),
      get_section = (\<lambda>n. None :: nat option)\<rparr> = Inl ValueError"
proof -
  let ?e1 = "\<lparr>bigendian = False, elfclass = 64,
      find_note = (\<lambda>a b. if a = ''FRRouting'' \<and> b = ''XREF'' then Some \<lparr>start = 4096\<rparr> else None),
      getitem = (\<lambda>n. [16, 0, 0, 0, 0, 0, 0, 0, 32, 1, 0, 0, 0, 0, 0, 0]),
      get_section = (\<lambda>n. None :: nat option)\<rparr>"
  let ?e2 = "\<lparr>bigendian = False, elfclass = 64, find_note = (\<lambda>a b. None),
      getitem = (\<lambda>n. []),
      get_section = (\<lambda>n. if n = ''xref_array'' then Some (5::nat) else None)\<rparr>"
  let ?e3 = "\<lparr>bigendian = False, elfclass = 64, find_note = (\<lambda>a b. None),
      getitem = (\<lambda>n. []),
      get_section = (\<lambda>n. None :: nat option)\<rparr>"
  have enc: "encode_uint False 8 16 @ encode_uint False 8 288
             = [16, 0, 0, 0, 0, 0, 0, 0, 32, 1, 0, 0, 0, 0, 0, 0]"
    by code_simp
  have h1: "find_note ?e1 ''FRRouting'' ''XREF'' = Some \<lparr>start = 4096\<rparr>
      \<and> getitem ?e1 \<lparr>start = 4096\<rparr>
          = encode_uint (bigendian ?e1) (if elfclass ?e1 = 64 then 8 else 4) 16
            @ encode_uint (bigendian ?e1) (if elfclass ?e1 = 64 then 8 else 4) 288
      \<and> (0::int) \<le> 16 \<and> (16::int) < 256 ^ (if elfclass ?e1 = 64 then 8 else 4)
      \<and> (0::int) \<le> 288 \<and> (288::int) < 256 ^ (if elfclass ?e1 = 64 then 8 else 4)"
    using enc by simp
  have a: "locate_ptrs ?e1 = Inr (Slice (start \<lparr>start = 4096\<rparr> + 16)
             (start \<lparr>start = 4096\<rparr> + 288 + int (if elfclass ?e1 = 64 then 8 else 4)))"
    using pointer_table_discovery [of ?e1] h1 by blast
  have b: "locate_ptrs ?e2 = Inr (Section 5)"
    using pointer_table_discovery [of ?e2] by simp
  have c: "locate_ptrs ?e3 = Inl ValueError"
    using pointer_table_discovery [of ?e3] by simp
  show ?thesis using a b c by simp
qed

end
